theory Spec2Isabelle
  imports Complex_Main "HOL-Library.FSet" "HOL-Library.Sublist" "HOL-Library.Multiset"
begin

section \<open>JavaScript values read by the table\<close>

text \<open>
  A JavaScript number is a double. The table only subtracts two numbers and hands the
  result to \<open>Array.prototype.sort\<close>, which looks at its sign alone, so a finite number is
  kept as the real it denotes and the three non-finite values are kept apart. Rounding of
  a finite difference never changes its sign and is not modelled.
\<close>

datatype jsnum = NaN | NegInf | Fin real | PosInf

text \<open>\<open>a - b\<close> on numbers.\<close>

fun num_sub :: "jsnum \<Rightarrow> jsnum \<Rightarrow> jsnum" where
  "num_sub NaN _ = NaN"
| "num_sub _ NaN = NaN"
| "num_sub PosInf PosInf = NaN"
| "num_sub NegInf NegInf = NaN"
| "num_sub PosInf _ = PosInf"
| "num_sub NegInf _ = NegInf"
| "num_sub (Fin a) PosInf = NegInf"
| "num_sub (Fin a) NegInf = PosInf"
| "num_sub (Fin a) (Fin b) = Fin (a - b)"

text \<open>Unary minus, as in \<open>-comparison\<close>.\<close>

fun num_neg :: "jsnum \<Rightarrow> jsnum" where
  "num_neg NaN = NaN"
| "num_neg NegInf = PosInf"
| "num_neg PosInf = NegInf"
| "num_neg (Fin a) = Fin (- a)"

text \<open>\<open>v > 0\<close> and \<open>v < 0\<close>; both are false of \<open>NaN\<close>.\<close>

fun is_pos :: "jsnum \<Rightarrow> bool" where
  "is_pos PosInf = True"
| "is_pos (Fin a) = (0 < a)"
| "is_pos _ = False"

fun is_neg :: "jsnum \<Rightarrow> bool" where
  "is_neg NegInf = True"
| "is_neg (Fin a) = (a < 0)"
| "is_neg _ = False"

text \<open>
  A cell value (\<open>any\<close> in the source). A \<open>Date\<close> is its time value, \<open>NaN\<close> for an
  invalid date; every other object is an opaque reference.
\<close>

datatype jsval =
    VUndefined
  | VNull
  | VBoolean bool
  | VNumber jsnum
  | VString string
  | VDate jsnum
  | VObject nat

text \<open>\<open>v == null\<close>: true of \<open>null\<close> and of \<open>undefined\<close>, of nothing else.\<close>

fun isNullish :: "jsval \<Rightarrow> bool" where
  "isNullish VUndefined = True"
| "isNullish VNull = True"
| "isNullish _ = False"

text \<open>\<open>typeof v === 'string'\<close>, \<open>typeof v === 'number'\<close> and \<open>v instanceof Date\<close>, each
  giving the payload when the test succeeds.\<close>

fun stringOf :: "jsval \<Rightarrow> string option" where
  "stringOf (VString s) = Some s"
| "stringOf _ = None"

fun numberOf :: "jsval \<Rightarrow> jsnum option" where
  "numberOf (VNumber n) = Some n"
| "numberOf _ = None"

fun dateOf :: "jsval \<Rightarrow> jsnum option" where
  "dateOf (VDate t) = Some t"
| "dateOf _ = None"

text \<open>
  A row is a \<open>Record<string, any>\<close>, a plain object: the list holds its own properties.
  Reading \<open>record[k]\<close> gives the row's own property \<open>k\<close>; failing that, what the row
  inherits from \<open>Object.prototype\<close>, whose properties are functions, or for \<open>__proto__\<close>
  the prototype itself; failing that, \<open>undefined\<close>.
\<close>

type_synonym row = "(string \<times> jsval) list"

definition objectPrototype :: "(string \<times> jsval) list" where
  "objectPrototype =
     [(''constructor'', VObject 0), (''__defineGetter__'', VObject 1),
      (''__defineSetter__'', VObject 2), (''hasOwnProperty'', VObject 3),
      (''__lookupGetter__'', VObject 4), (''__lookupSetter__'', VObject 5),
      (''isPrototypeOf'', VObject 6), (''propertyIsEnumerable'', VObject 7),
      (''toString'', VObject 8), (''valueOf'', VObject 9), (''__proto__'', VObject 10),
      (''toLocaleString'', VObject 11)]"

definition getField :: "row \<Rightarrow> string \<Rightarrow> jsval" where
  "getField r k =
     (case map_of r k of
        Some v \<Rightarrow> v
      | None \<Rightarrow> (case map_of objectPrototype k of Some v \<Rightarrow> v | None \<Rightarrow> VUndefined))"


section \<open>The data model of \<open>DataTable.tsx\<close>\<close>

text \<open>\<open>interface Column\<close>; \<open>width\<close> and \<open>render\<close> only feed the markup.\<close>

record Column =
  key :: string
  title :: string
  dataIndex :: string
  sortable :: "bool option"

text \<open>\<open>type SortDirection = 'asc' | 'desc' | null\<close>: \<open>null\<close> is \<open>None\<close>.\<close>

datatype SortDirection = Asc | Desc

record SortState =
  key :: "string option"
  direction :: "SortDirection option"

text \<open>\<open>rowKey?: keyof T | ((record: T) => string | number)\<close>.\<close>

datatype RowKey = KeyField string | KeyFn "row \<Rightarrow> jsval"

text \<open>
  The props the sort and selection logic reads. \<open>onRowSelect\<close> says whether a callback
  is registered; what the callback receives is returned by the handlers below.
\<close>

record DataTableProps =
  data :: "row list"
  columns :: "Column list"
  selectable :: bool
  onRowSelect :: bool
  rowKey :: RowKey

text \<open>
  The two \<open>useState\<close> cells of the component. A row identity is a string or a number;
  the \<open>Set\<close> compares them by value, as equality of \<open>jsval\<close> does.
\<close>

record TableState =
  sortState :: SortState
  selectedRows :: "jsval fset"

definition initialState :: TableState where
  "initialState =
     \<lparr>sortState = \<lparr>SortState.key = None, direction = None\<rparr>, selectedRows = {||}\<rparr>"

section \<open>Row identity\<close>

text \<open>
  \<open>getRowKey\<close>: a key function is applied to the record; otherwise the key field is read
  and, when it is \<open>null\<close> or \<open>undefined\<close> (\<open>??\<close>), the index stands in.
\<close>

definition getRowKey :: "DataTableProps \<Rightarrow> row \<Rightarrow> nat \<Rightarrow> jsval" where
  "getRowKey p record index =
     (case rowKey p of
        KeyFn f \<Rightarrow> f record
      | KeyField k \<Rightarrow>
          (let v = getField record k
           in if isNullish v then VNumber (Fin (real index)) else v))"

text \<open>\<open>data.map((record, index) => getRowKey(record, index))\<close>.\<close>

definition rowKeys :: "DataTableProps \<Rightarrow> jsval list" where
  "rowKeys p = map (\<lambda>(index, record). getRowKey p record index) (enumerate 0 (data p))"


section \<open>Sorting\<close>

text \<open>
  The comparison function handed to \<open>sort\<close>. It closes over \<open>sortState.direction\<close> and the
  column found. \<open>String.prototype.localeCompare\<close> depends on the host's locale and
  \<open>String(v)\<close> on the host's formatting, so both are parameters: \<open>localeCompare\<close> and
  \<open>toStr\<close>.
\<close>

definition sortComparator ::
  "(string \<Rightarrow> string \<Rightarrow> jsnum) \<Rightarrow> (jsval \<Rightarrow> string) \<Rightarrow> SortDirection option \<Rightarrow> Column
     \<Rightarrow> row \<Rightarrow> row \<Rightarrow> jsnum" where
  "sortComparator localeCompare toStr dir column a b =
     (let aValue = getField a (dataIndex column);
          bValue = getField b (dataIndex column)
      in if isNullish aValue \<and> isNullish bValue then Fin 0
         else if isNullish aValue then (if dir = Some Asc then Fin (- 1) else Fin 1)
         else if isNullish bValue then (if dir = Some Asc then Fin 1 else Fin (- 1))
         else
           (case (stringOf aValue, stringOf bValue) of
              (Some x, Some y) \<Rightarrow>
                (let comparison = localeCompare x y
                 in if dir = Some Asc then comparison else num_neg comparison)
            | _ \<Rightarrow>
           (case (numberOf aValue, numberOf bValue) of
              (Some x, Some y) \<Rightarrow>
                (if dir = Some Asc then num_sub x y else num_sub y x)
            | _ \<Rightarrow>
           (case (dateOf aValue, dateOf bValue) of
              (Some x, Some y) \<Rightarrow>
                (if dir = Some Asc then num_sub x y else num_sub y x)
            | _ \<Rightarrow>
                (let aStr = toStr aValue;
                     bStr = toStr bValue;
                     comparison = localeCompare aStr bStr
                 in if dir = Some Asc then comparison else num_neg comparison)))))"

text \<open>
  \<open>Array.prototype.sort\<close> is the language's own. ECMAScript promises a sorted, stable
  result where the comparison is a consistent order and leaves the order to the engine
  where it is not, so the sort is modelled as the engine runs it: V8, the engine of Node
  and Chrome, on an array of fewer than 64 elements. The comparison's result is read by
  the test \<open>order < 0\<close>, \<open>NaN\<close> counting as zero. \<open>CountAndMakeRun\<close> takes the longest
  run at the start of the array, ascending or strictly descending as its first two
  elements compare, and reverses a descending one; \<open>BinaryInsertionSort\<close> then puts each
  further element into the run at the place a binary search finds. (An array of 64
  elements or more is cut into runs of 32 to 64 elements sorted this way, and the runs
  are merged; the merge is not modelled. Under a consistent comparison there is one
  sorted, stable arrangement only, the one \<open>array_sort\<close> gives.)
\<close>

fun extendRun :: "bool \<Rightarrow> ('a \<Rightarrow> 'a \<Rightarrow> jsnum) \<Rightarrow> 'a \<Rightarrow> 'a list \<Rightarrow> 'a list \<times> 'a list" where
  "extendRun isDescending cmp previousElement [] = ([], [])"
| "extendRun isDescending cmp previousElement (currentElement # rest) =
     (if is_neg (cmp currentElement previousElement) = isDescending then
        (case extendRun isDescending cmp currentElement rest of
           (run, rest') \<Rightarrow> (currentElement # run, rest'))
      else ([], currentElement # rest))"

text \<open>The run and what is left of the array after it.\<close>

fun countAndMakeRun :: "('a \<Rightarrow> 'a \<Rightarrow> jsnum) \<Rightarrow> 'a list \<Rightarrow> 'a list \<times> 'a list" where
  "countAndMakeRun cmp [] = ([], [])"
| "countAndMakeRun cmp [x] = ([x], [])"
| "countAndMakeRun cmp (elementHigh # elementLow # rest) =
     (let isDescending = is_neg (cmp elementLow elementHigh)
      in case extendRun isDescending cmp elementLow rest of
           (run, rest') \<Rightarrow>
             (if isDescending then rev (elementHigh # elementLow # run)
              else elementHigh # elementLow # run,
              rest'))"

text \<open>The binary search for the place of \<open>pivot\<close> between \<open>left\<close> and \<open>right\<close>.\<close>

function binarySearch :: "('a \<Rightarrow> 'a \<Rightarrow> jsnum) \<Rightarrow> 'a \<Rightarrow> 'a list \<Rightarrow> nat \<Rightarrow> nat \<Rightarrow> nat" where
  "binarySearch cmp pivot work left right =
     (if left < right then
        (let mid = left + (right - left) div 2
         in if is_neg (cmp pivot (work ! mid)) then binarySearch cmp pivot work left mid
            else binarySearch cmp pivot work (mid + 1) right)
      else left)"
  by pat_completeness auto
termination
  by (relation "measure (\<lambda>(cmp, pivot, work, left, right). right - left)") auto

definition insertPivot :: "('a \<Rightarrow> 'a \<Rightarrow> jsnum) \<Rightarrow> 'a list \<Rightarrow> 'a \<Rightarrow> 'a list" where
  "insertPivot cmp work pivot =
     (let left = binarySearch cmp pivot work 0 (length work)
      in take left work @ pivot # drop left work)"

definition binaryInsertionSort :: "('a \<Rightarrow> 'a \<Rightarrow> jsnum) \<Rightarrow> 'a list \<Rightarrow> 'a list \<Rightarrow> 'a list" where
  "binaryInsertionSort cmp run rest = foldl (insertPivot cmp) run rest"

definition array_sort :: "('a \<Rightarrow> 'a \<Rightarrow> jsnum) \<Rightarrow> 'a list \<Rightarrow> 'a list" where
  "array_sort cmp xs =
     (case countAndMakeRun cmp xs of (run, rest) \<Rightarrow> binaryInsertionSort cmp run rest)"

text \<open>
  What the language asks of a comparison before it promises a sorted, stable result, in
  terms of the signs the sort reads: one row is above another exactly when the other is
  below it, no two rows are each below the other, and not being below is transitive.
\<close>

definition consistent_on :: "('a \<Rightarrow> 'a \<Rightarrow> jsnum) \<Rightarrow> 'a set \<Rightarrow> bool" where
  "consistent_on cmp A \<longleftrightarrow>
     (\<forall>a\<in>A. \<forall>b\<in>A. is_pos (cmp a b) \<longleftrightarrow> is_neg (cmp b a))
   \<and> (\<forall>a\<in>A. \<forall>b\<in>A. is_neg (cmp a b) \<longrightarrow> \<not> is_neg (cmp b a))
   \<and> (\<forall>a\<in>A. \<forall>b\<in>A. \<forall>c\<in>A.
         \<not> is_neg (cmp a b) \<and> \<not> is_neg (cmp b c) \<longrightarrow> \<not> is_neg (cmp a c))"

text \<open>Two rows have equal sort keys when the comparison of the first with the second is
  zero: neither negative nor positive.\<close>

definition equal_keys :: "('a \<Rightarrow> 'a \<Rightarrow> jsnum) \<Rightarrow> 'a \<Rightarrow> 'a \<Rightarrow> bool" where
  "equal_keys cmp a b \<longleftrightarrow> \<not> is_neg (cmp a b) \<and> \<not> is_pos (cmp a b)"

text \<open>
  \<open>sortedData\<close>. \<open>!sortState.key\<close> holds of \<open>null\<close> and of the empty string.
\<close>

definition sortedData ::
  "(string \<Rightarrow> string \<Rightarrow> jsnum) \<Rightarrow> (jsval \<Rightarrow> string) \<Rightarrow> DataTableProps \<Rightarrow> SortState
     \<Rightarrow> row list" where
  "sortedData localeCompare toStr p st =
     (case SortState.key st of
        None \<Rightarrow> data p
      | Some k \<Rightarrow>
          if k = [] \<or> direction st = None then data p
          else
            (case find (\<lambda>col. Column.key col = k) (columns p) of
               None \<Rightarrow> data p
             | Some column \<Rightarrow>
                 array_sort (sortComparator localeCompare toStr (direction st) column)
                   (data p)))"

text \<open>\<open>handleSort\<close>: the update passed to \<open>setSortState\<close>, applied to the state.\<close>

definition handleSort :: "Column \<Rightarrow> TableState \<Rightarrow> TableState" where
  "handleSort column s =
     (if sortable column \<noteq> Some True then s
      else
        (let prev = sortState s
         in s\<lparr>sortState :=
              (if SortState.key prev = Some (Column.key column) then
                 (let newDirection =
                        (if direction prev = Some Asc then Some Desc
                         else if direction prev = Some Desc then None
                         else Some Asc)
                  in \<lparr>SortState.key =
                         (if newDirection \<noteq> None then Some (Column.key column) else None),
                       direction = newDirection\<rparr>)
               else \<lparr>SortState.key = Some (Column.key column), direction = Some Asc\<rparr>)\<rparr>))"


section \<open>Selection\<close>

text \<open>
  \<open>handleRowSelect\<close> returns the new state and what \<open>onRowSelect\<close> is called with, if it is
  registered. The \<open>record\<close> argument is not read by the source either.
\<close>

definition handleRowSelect ::
  "DataTableProps \<Rightarrow> jsval \<Rightarrow> row \<Rightarrow> TableState \<Rightarrow> TableState \<times> row list option" where
  "handleRowSelect p k record s =
     (let newSelectedRows =
            (if k |\<in>| selectedRows s then selectedRows s |-| {|k|}
             else finsert k (selectedRows s))
      in (s\<lparr>selectedRows := newSelectedRows\<rparr>,
          if onRowSelect p then
            Some (map snd
                   (filter (\<lambda>(index, record). getRowKey p record index |\<in>| newSelectedRows)
                      (enumerate 0 (data p))))
          else None))"

text \<open>\<open>handleSelectAll\<close>: the test is on the two sizes.\<close>

definition handleSelectAll :: "DataTableProps \<Rightarrow> TableState \<Rightarrow> TableState \<times> row list option" where
  "handleSelectAll p s =
     (if fcard (selectedRows s) = length (data p) then
        (s\<lparr>selectedRows := {||}\<rparr>, if onRowSelect p then Some [] else None)
      else
        (let allKeys = fset_of_list (rowKeys p)
         in (s\<lparr>selectedRows := allKeys\<rparr>, if onRowSelect p then Some (data p) else None)))"

text \<open>
  The checkbox of the row shown at position \<open>index\<close>: rendered only when \<open>selectable\<close>,
  it calls \<open>handleRowSelect\<close> with the key computed from the derived view.
\<close>

definition clickRow ::
  "(string \<Rightarrow> string \<Rightarrow> jsnum) \<Rightarrow> (jsval \<Rightarrow> string) \<Rightarrow> DataTableProps \<Rightarrow> nat
     \<Rightarrow> TableState \<Rightarrow> TableState \<times> row list option" where
  "clickRow localeCompare toStr p index s =
     (let view = sortedData localeCompare toStr p (sortState s)
      in if selectable p \<and> index < length view then
           (let record = view ! index;
                key = getRowKey p record index
            in handleRowSelect p key record s)
         else (s, None))"

text \<open>The header checkbox.\<close>

definition isAllSelected :: "DataTableProps \<Rightarrow> TableState \<Rightarrow> bool" where
  "isAllSelected p s = (length (data p) > 0 \<and> fcard (selectedRows s) = length (data p))"

definition isIndeterminate :: "DataTableProps \<Rightarrow> TableState \<Rightarrow> bool" where
  "isIndeterminate p s =
     (fcard (selectedRows s) > 0 \<and> fcard (selectedRows s) < length (data p))"

text \<open>
  The states the component can be in: it starts with no sort and nothing selected, and
  each event runs one handler, under whatever props the host supplies at that moment.
\<close>

inductive reachable :: "TableState \<Rightarrow> bool" where
  init: "reachable initialState"
| on_sort: "reachable s \<Longrightarrow> reachable (handleSort column s)"
| on_row: "reachable s \<Longrightarrow> reachable (fst (handleRowSelect p k record s))"
| on_select_all: "reachable s \<Longrightarrow> reachable (fst (handleSelectAll p s))"

section \<open>Example data\<close>

text \<open>
  The rows and columns of the component's test file, \<open>mockUsers\<close> and \<open>mockColumns\<close>,
  rendered with \<open>selectable\<close>, an \<open>onRowSelect\<close> callback and the default \<open>rowKey\<close>,
  \<open>'id'\<close>.
\<close>

definition mockUser :: "real \<Rightarrow> string \<Rightarrow> string \<Rightarrow> real \<Rightarrow> string \<Rightarrow> row" where
  "mockUser i n e a st =
     [(''id'', VNumber (Fin i)), (''name'', VString n), (''email'', VString e),
      (''age'', VNumber (Fin a)), (''status'', VString st)]"

definition john :: row where
  "john = mockUser 1 ''John Doe'' ''john@example.com'' 30 ''active''"

definition jane :: row where
  "jane = mockUser 2 ''Jane Smith'' ''jane@example.com'' 25 ''inactive''"

definition bob :: row where
  "bob = mockUser 3 ''Bob Johnson'' ''bob@example.com'' 35 ''active''"

definition mockUsers :: "row list" where
  "mockUsers = [john, jane, bob]"

definition nameColumn :: Column where
  "nameColumn = \<lparr>Column.key = ''name'', title = ''Name'', dataIndex = ''name'', sortable = Some True\<rparr>"

definition emailColumn :: Column where
  "emailColumn = \<lparr>Column.key = ''email'', title = ''Email'', dataIndex = ''email'', sortable = Some True\<rparr>"

definition ageColumn :: Column where
  "ageColumn = \<lparr>Column.key = ''age'', title = ''Age'', dataIndex = ''age'', sortable = Some True\<rparr>"

definition statusColumn :: Column where
  "statusColumn = \<lparr>Column.key = ''status'', title = ''Status'', dataIndex = ''status'', sortable = None\<rparr>"

definition mockColumns :: "Column list" where
  "mockColumns = [nameColumn, emailColumn, ageColumn, statusColumn]"

definition mockProps :: DataTableProps where
  "mockProps =
     \<lparr>data = mockUsers, columns = mockColumns, selectable = True, onRowSelect = True,
      rowKey = KeyField ''id''\<rparr>"

text \<open>The same table after the host has taken the last row away.\<close>

definition shrunkProps :: DataTableProps where
  "shrunkProps = mockProps\<lparr>data := [john, jane]\<rparr>"

text \<open>A fourth user of John's age, for a column with a repeated sort key.\<close>

definition joan :: row where
  "joan = mockUser 4 ''Joan Roe'' ''joan@example.com'' 30 ''active''"

definition tiedProps :: DataTableProps where
  "tiedProps = mockProps\<lparr>data := [john, jane, bob, joan]\<rparr>"

text \<open>Jane between a row whose age is \<open>null\<close> and a row that has no age.\<close>

definition nullAge :: row where
  "nullAge = [(''id'', VNumber (Fin 6)), (''age'', VNull)]"

definition noAge :: row where
  "noAge = [(''id'', VNumber (Fin 5))]"

definition absentProps :: DataTableProps where
  "absentProps = mockProps\<lparr>data := [nullAge, jane, noAge]\<rparr>"

text \<open>
  Four rows whose \<open>age\<close> is now a number, now a string, and \<open>String(v)\<close> on the cells
  they hold.
\<close>

definition aged :: "real \<Rightarrow> jsval \<Rightarrow> row" where
  "aged i a = [(''id'', VNumber (Fin i)), (''age'', a)]"

definition mixedProps :: DataTableProps where
  "mixedProps =
     mockProps\<lparr>data := [aged 1 (VNumber (Fin 3)), aged 2 (VString ''2''),
                        aged 3 (VNumber (Fin 10)), aged 4 (VNumber (Fin 3))]\<rparr>"

definition mixedString :: "jsval \<Rightarrow> string" where
  "mixedString v =
     (case v of
        VString s \<Rightarrow> s
      | VNumber n \<Rightarrow> (if n = Fin 3 then ''3'' else if n = Fin 10 then ''10'' else [])
      | _ \<Rightarrow> [])"

text \<open>
  One collation to evaluate examples with: strings compared code unit by code unit. The
  theorems below are stated for any \<open>localeCompare\<close>; the examples need one.
\<close>

fun codeUnitCompare :: "string \<Rightarrow> string \<Rightarrow> jsnum" where
  "codeUnitCompare [] [] = Fin 0"
| "codeUnitCompare [] (y # ys) = Fin (- 1)"
| "codeUnitCompare (x # xs) [] = Fin 1"
| "codeUnitCompare (x # xs) (y # ys) =
     (if (of_char x :: nat) < of_char y then Fin (- 1)
      else if (of_char y :: nat) < of_char x then Fin 1
      else codeUnitCompare xs ys)"


section \<open>What each handler does to each half of the state\<close>

lemma selectedRows_handleRowSelect:
  "selectedRows (fst (handleRowSelect p k r s)) =
     (if k |\<in>| selectedRows s then selectedRows s |-| {|k|} else finsert k (selectedRows s))"
  by (simp add: handleRowSelect_def Let_def)

lemma sortState_handleRowSelect: "sortState (fst (handleRowSelect p k r s)) = sortState s"
  by (simp add: handleRowSelect_def Let_def)

lemma selectedRows_handleSelectAll:
  "selectedRows (fst (handleSelectAll p s)) =
     (if fcard (selectedRows s) = length (data p) then {||} else fset_of_list (rowKeys p))"
  by (simp add: handleSelectAll_def Let_def)

lemma sortState_handleSelectAll: "sortState (fst (handleSelectAll p s)) = sortState s"
  by (simp add: handleSelectAll_def Let_def)

lemma selectedRows_handleSort: "selectedRows (handleSort c s) = selectedRows s"
  by (simp add: handleSort_def Let_def)

lemma handleSort_not_sortable: "sortable c \<noteq> Some True \<Longrightarrow> handleSort c s = s"
  by (simp add: handleSort_def)

lemma sortState_handleSort:
  "sortable c = Some True \<Longrightarrow>
   sortState (handleSort c s) =
     (if SortState.key (sortState s) = Some (Column.key c) then
        (if direction (sortState s) = Some Asc
           then \<lparr>SortState.key = Some (Column.key c), direction = Some Desc\<rparr>
         else if direction (sortState s) = Some Desc
           then \<lparr>SortState.key = None, direction = None\<rparr>
         else \<lparr>SortState.key = Some (Column.key c), direction = Some Asc\<rparr>)
      else \<lparr>SortState.key = Some (Column.key c), direction = Some Asc\<rparr>)"
  by (simp add: handleSort_def Let_def)

text \<open>A reachable sort state has a column exactly when it has a direction.\<close>

lemma reachable_key_iff_direction:
  "reachable s \<Longrightarrow>
   (SortState.key (sortState s) = None \<longleftrightarrow> direction (sortState s) = None)"
proof (induction rule: reachable.induct)
  case init
  show ?case by (simp add: initialState_def)
next
  case (on_sort s column)
  show ?case
  proof (cases "sortable column = Some True")
    case True
    with on_sort.IH show ?thesis by (simp add: sortState_handleSort)
  next
    case False
    with on_sort.IH show ?thesis by (simp add: handleSort_not_sortable)
  qed
next
  case (on_row s p k r)
  then show ?case by (simp add: sortState_handleRowSelect)
next
  case (on_select_all s p)
  then show ?case by (simp add: sortState_handleSelectAll)
qed


section \<open>Row identities and the size test\<close>

lemma length_rowKeys: "length (rowKeys p) = length (data p)"
  by (simp add: rowKeys_def)

lemma fcard_fset_of_list_distinct: "distinct xs \<Longrightarrow> fcard (fset_of_list xs) = length xs"
  by (simp add: fcard.rep_eq fset_of_list.rep_eq distinct_card)

text \<open>
  With pairwise distinct identities and nothing stale selected, the sizes agree exactly
  when every row is selected.
\<close>

lemma full_iff_size:
  assumes "distinct (rowKeys p)" "sel |\<subseteq>| fset_of_list (rowKeys p)"
  shows "fcard sel = length (data p) \<longleftrightarrow> sel = fset_of_list (rowKeys p)"
proof
  assume "fcard sel = length (data p)"
  then have "fcard sel = fcard (fset_of_list (rowKeys p))"
    using assms(1) by (simp add: fcard_fset_of_list_distinct length_rowKeys)
  then show "sel = fset_of_list (rowKeys p)"
    using assms(2) by (metis fcard_seteq order_refl)
next
  assume "sel = fset_of_list (rowKeys p)"
  then show "fcard sel = length (data p)"
    using assms(1) by (simp add: fcard_fset_of_list_distinct length_rowKeys)
qed


section \<open>The sort\<close>

declare binarySearch.simps [simp del]

text \<open>What consistency gives.\<close>

lemma consistent_on_subset: "consistent_on cmp A \<Longrightarrow> B \<subseteq> A \<Longrightarrow> consistent_on cmp B"
  unfolding consistent_on_def by blast

lemma consistent_on_asym: "consistent_on cmp A \<Longrightarrow> a \<in> A \<Longrightarrow> b \<in> A \<Longrightarrow> is_neg (cmp a b) \<Longrightarrow> \<not> is_neg (cmp b a)"
  unfolding consistent_on_def by blast

lemma consistent_on_negtrans:
  "consistent_on cmp A \<Longrightarrow> a \<in> A \<Longrightarrow> b \<in> A \<Longrightarrow> c \<in> A \<Longrightarrow>
   \<not> is_neg (cmp a b) \<Longrightarrow> \<not> is_neg (cmp b c) \<Longrightarrow> \<not> is_neg (cmp a c)"
  unfolding consistent_on_def by blast

lemma consistent_on_trans:
  assumes "consistent_on cmp A" "a \<in> A" "b \<in> A" "c \<in> A" "is_neg (cmp a b)" "is_neg (cmp b c)"
  shows "is_neg (cmp a c)"
proof (rule ccontr)
  assume "\<not> is_neg (cmp a c)"
  moreover have "\<not> is_neg (cmp c b)"
    using assms by (meson consistent_on_asym)
  ultimately have "\<not> is_neg (cmp a b)"
    using assms(1-4) by (meson consistent_on_negtrans)
  with assms(5) show False by simp
qed

lemma consistent_on_below_left:
  assumes "consistent_on cmp A" "a \<in> A" "b \<in> A" "c \<in> A" "is_neg (cmp a b)" "\<not> is_neg (cmp c b)"
  shows "is_neg (cmp a c)"
proof (rule ccontr)
  assume "\<not> is_neg (cmp a c)"
  with assms(6) have "\<not> is_neg (cmp a b)"
    using assms(1-4) by (meson consistent_on_negtrans)
  with assms(5) show False by simp
qed

lemma list_012_cases:
  obtains "xs = []" | x where "xs = [x]" | x y zs where "xs = x # y # zs"
proof (cases xs)
  case Nil
  then show ?thesis by (rule that(1))
next
  case (Cons x ys)
  then show ?thesis by (cases ys) (auto intro: that)
qed

text \<open>The run at the start of the array: it is split off, and it is in order.\<close>

lemma extendRun_append: "extendRun d cmp prev xs = (run, rest) \<Longrightarrow> run @ rest = xs"
  by (induction xs arbitrary: prev run rest) (auto split: if_splits prod.splits)

lemma extendRun_ascending:
  assumes "consistent_on cmp A" "prev \<in> A" "set xs \<subseteq> A" "extendRun False cmp prev xs = (run, rest)"
  shows "sorted_wrt (\<lambda>a b. \<not> is_neg (cmp b a)) (prev # run)"
  using assms(2-4)
proof (induction xs arbitrary: prev run rest)
  case Nil
  then show ?case by simp
next
  case (Cons x xs)
  show ?case
  proof (cases "is_neg (cmp x prev)")
    case True
    with Cons.prems show ?thesis by simp
  next
    case False
    then obtain run' where run: "run = x # run'" and ext: "extendRun False cmp x xs = (run', rest)"
      using Cons.prems(3) by (auto split: prod.splits)
    have IH: "sorted_wrt (\<lambda>a b. \<not> is_neg (cmp b a)) (x # run')"
      using Cons.IH [OF _ _ ext] Cons.prems(2) by simp
    have sub: "set run' \<subseteq> A"
      using extendRun_append [OF ext] Cons.prems(2) by auto
    have "\<not> is_neg (cmp y prev)" if "y \<in> set run'" for y
    proof -
      have "\<not> is_neg (cmp y x)" using IH that by simp
      moreover have "y \<in> A" "x \<in> A" using that sub Cons.prems(2) by auto
      ultimately show ?thesis
        using False assms(1) Cons.prems(1) by (meson consistent_on_negtrans)
    qed
    with IH False show ?thesis by (simp add: run)
  qed
qed

lemma extendRun_descending:
  assumes "consistent_on cmp A" "prev \<in> A" "set xs \<subseteq> A" "extendRun True cmp prev xs = (run, rest)"
  shows "sorted_wrt (\<lambda>a b. is_neg (cmp b a)) (prev # run)"
  using assms(2-4)
proof (induction xs arbitrary: prev run rest)
  case Nil
  then show ?case by simp
next
  case (Cons x xs)
  show ?case
  proof (cases "is_neg (cmp x prev)")
    case False
    with Cons.prems show ?thesis by simp
  next
    case True
    then obtain run' where run: "run = x # run'" and ext: "extendRun True cmp x xs = (run', rest)"
      using Cons.prems(3) by (auto split: prod.splits)
    have IH: "sorted_wrt (\<lambda>a b. is_neg (cmp b a)) (x # run')"
      using Cons.IH [OF _ _ ext] Cons.prems(2) by simp
    have sub: "set run' \<subseteq> A"
      using extendRun_append [OF ext] Cons.prems(2) by auto
    have "is_neg (cmp y prev)" if "y \<in> set run'" for y
    proof -
      have "is_neg (cmp y x)" using IH that by simp
      moreover have "y \<in> A" "x \<in> A" using that sub Cons.prems(2) by auto
      ultimately show ?thesis
        using True assms(1) Cons.prems(1) by (meson consistent_on_trans)
    qed
    with IH True show ?thesis by (simp add: run)
  qed
qed

lemma countAndMakeRun_mset:
  "countAndMakeRun cmp xs = (run, rest) \<Longrightarrow> mset run + mset rest = mset xs"
proof (induction cmp xs rule: countAndMakeRun.induct)
  case (3 cmp elementHigh elementLow rest0)
  obtain r rest' where ext: "extendRun (is_neg (cmp elementLow elementHigh)) cmp elementLow rest0 = (r, rest')"
    by (cases "extendRun (is_neg (cmp elementLow elementHigh)) cmp elementLow rest0")
  from extendRun_append [OF ext] have "mset r + mset rest' = mset rest0"
    by (metis mset_append)
  with 3 ext show ?case by (auto simp add: Let_def split: if_splits)
qed auto

text \<open>A strictly descending run holds at most one row of a class whose rows are not
  below one another, so reversing it moves no two rows of the class.\<close>

lemma filter_rev_descending:
  assumes "sorted_wrt (\<lambda>a b. is_neg (cmp b a)) ws"
      and "\<forall>x\<in>set ws. \<forall>y\<in>set ws. P x \<and> P y \<longrightarrow> \<not> is_neg (cmp x y)"
  shows "filter P (rev ws) = filter P ws"
proof -
  have "sorted_wrt (\<lambda>a b. is_neg (cmp b a)) (filter P ws)"
    using assms(1) by (rule sorted_wrt_filter)
  moreover have "\<not> is_neg (cmp b a)" if "a \<in> set (filter P ws)" "b \<in> set (filter P ws)" for a b
    using assms(2) that by auto
  ultimately have "rev (filter P ws) = filter P ws"
    by (cases "filter P ws" rule: list_012_cases) auto
  then show ?thesis by (simp add: rev_filter)
qed

lemma countAndMakeRun_sorted:
  assumes "consistent_on cmp (set xs)" "countAndMakeRun cmp xs = (run, rest)"
  shows "sorted_wrt (\<lambda>a b. \<not> is_neg (cmp b a)) run"
proof (cases xs rule: list_012_cases)
  case 1
  with assms(2) show ?thesis by simp
next
  case (2 x)
  with assms(2) show ?thesis by auto
next
  case (3 elementHigh elementLow rest0)
  obtain r rest' where ext: "extendRun (is_neg (cmp elementLow elementHigh)) cmp elementLow rest0 = (r, rest')"
    by (cases "extendRun (is_neg (cmp elementLow elementHigh)) cmp elementLow rest0")
  have mem: "elementHigh \<in> set xs" "elementLow \<in> set xs" "set rest0 \<subseteq> set xs"
    using 3 by auto
  have subr: "set r \<subseteq> set xs"
    using extendRun_append [OF ext] mem by auto
  show ?thesis
  proof (cases "is_neg (cmp elementLow elementHigh)")
    case True
    have desc: "sorted_wrt (\<lambda>a b. is_neg (cmp b a)) (elementLow # r)"
      using extendRun_descending [OF assms(1) mem(2) mem(3)] ext True by simp
    have "is_neg (cmp y elementHigh)" if "y \<in> set r" for y
    proof -
      have "is_neg (cmp y elementLow)" using desc that by simp
      with True show ?thesis
        using assms(1) mem(1,2) subr that by (meson consistent_on_trans subsetD)
    qed
    with desc True have "sorted_wrt (\<lambda>a b. is_neg (cmp b a)) (elementHigh # elementLow # r)"
      by simp
    then have "sorted_wrt (\<lambda>a b. is_neg (cmp a b)) (rev (elementHigh # elementLow # r))"
      by (simp only: sorted_wrt_rev)
    then have "sorted_wrt (\<lambda>a b. \<not> is_neg (cmp b a)) (rev (elementHigh # elementLow # r))"
    proof (rule sorted_wrt_mono_rel [rotated])
      fix a b assume "a \<in> set (rev (elementHigh # elementLow # r))"
        "b \<in> set (rev (elementHigh # elementLow # r))" "is_neg (cmp a b)"
      then show "\<not> is_neg (cmp b a)"
        using assms(1) mem(1,2) subr by (auto dest: consistent_on_asym)
    qed
    moreover have "run = rev (elementHigh # elementLow # r)"
      using assms(2) 3 ext True by (simp add: Let_def)
    ultimately show ?thesis by simp
  next
    case False
    have asc: "sorted_wrt (\<lambda>a b. \<not> is_neg (cmp b a)) (elementLow # r)"
      using extendRun_ascending [OF assms(1) mem(2) mem(3)] ext False by simp
    have "\<not> is_neg (cmp y elementHigh)" if "y \<in> set r" for y
    proof -
      have "\<not> is_neg (cmp y elementLow)" using asc that by simp
      with False show ?thesis
        using assms(1) mem(1,2) subr that by (meson consistent_on_negtrans subsetD)
    qed
    with asc False have "sorted_wrt (\<lambda>a b. \<not> is_neg (cmp b a)) (elementHigh # elementLow # r)"
      by simp
    moreover have "run = elementHigh # elementLow # r"
      using assms(2) 3 ext False by (simp add: Let_def)
    ultimately show ?thesis by simp
  qed
qed

lemma countAndMakeRun_filter:
  assumes "consistent_on cmp (set xs)" "countAndMakeRun cmp xs = (run, rest)"
      and "\<forall>x\<in>set xs. \<forall>y\<in>set xs. P x \<and> P y \<longrightarrow> \<not> is_neg (cmp x y)"
  shows "filter P run @ filter P rest = filter P xs"
proof (cases xs rule: list_012_cases)
  case 1
  with assms(2) show ?thesis by simp
next
  case (2 x)
  with assms(2) show ?thesis by auto
next
  case (3 elementHigh elementLow rest0)
  obtain r rest' where ext: "extendRun (is_neg (cmp elementLow elementHigh)) cmp elementLow rest0 = (r, rest')"
    by (cases "extendRun (is_neg (cmp elementLow elementHigh)) cmp elementLow rest0")
  have mem: "elementHigh \<in> set xs" "elementLow \<in> set xs" "set rest0 \<subseteq> set xs"
    using 3 by auto
  have app: "r @ rest' = rest0"
    using extendRun_append [OF ext] .
  have subr: "set r \<subseteq> set xs"
    using app mem by auto
  have whole: "xs = (elementHigh # elementLow # r) @ rest'"
    using 3 app by simp
  have rest: "rest = rest'"
    using assms(2) 3 ext by (simp add: Let_def)
  show ?thesis
  proof (cases "is_neg (cmp elementLow elementHigh)")
    case True
    have desc: "sorted_wrt (\<lambda>a b. is_neg (cmp b a)) (elementLow # r)"
      using extendRun_descending [OF assms(1) mem(2) mem(3)] ext True by simp
    have "is_neg (cmp y elementHigh)" if "y \<in> set r" for y
    proof -
      have "is_neg (cmp y elementLow)" using desc that by simp
      with True show ?thesis
        using assms(1) mem(1,2) subr that by (meson consistent_on_trans subsetD)
    qed
    with desc True have d: "sorted_wrt (\<lambda>a b. is_neg (cmp b a)) (elementHigh # elementLow # r)"
      by simp
    have "\<forall>x\<in>set (elementHigh # elementLow # r). \<forall>y\<in>set (elementHigh # elementLow # r).
            P x \<and> P y \<longrightarrow> \<not> is_neg (cmp x y)"
      using assms(3) mem subr by auto
    with d have "filter P (rev (elementHigh # elementLow # r)) = filter P (elementHigh # elementLow # r)"
      by (rule filter_rev_descending)
    moreover have "run = rev (elementHigh # elementLow # r)"
      using assms(2) 3 ext True by (simp add: Let_def)
    ultimately show ?thesis
      using whole rest by (metis filter_append)
  next
    case False
    have "run = elementHigh # elementLow # r"
      using assms(2) 3 ext False by (simp add: Let_def)
    then show ?thesis
      using whole rest by (metis filter_append)
  qed
qed

text \<open>The binary search finds the place after every element the pivot is not below.\<close>

lemma binarySearch_spec:
  assumes "consistent_on cmp (insert pivot (set work))"
      and "sorted_wrt (\<lambda>a b. \<not> is_neg (cmp b a)) work"
      and "left \<le> right" "right \<le> length work"
      and "\<forall>i<left. \<not> is_neg (cmp pivot (work ! i))"
      and "\<forall>i. right \<le> i \<and> i < length work \<longrightarrow> is_neg (cmp pivot (work ! i))"
  shows "binarySearch cmp pivot work left right \<le> length work
       \<and> (\<forall>i<binarySearch cmp pivot work left right. \<not> is_neg (cmp pivot (work ! i)))
       \<and> (\<forall>i. binarySearch cmp pivot work left right \<le> i \<and> i < length work
              \<longrightarrow> is_neg (cmp pivot (work ! i)))"
  using assms
proof (induction cmp pivot work left right rule: binarySearch.induct)
  case (1 cmp pivot work left right)
  show ?case
  proof (cases "left < right")
    case False
    then have "binarySearch cmp pivot work left right = left"
      by (simp add: binarySearch.simps)
    moreover have "left = right" using False "1.prems"(3) by simp
    ultimately show ?thesis using "1.prems" by simp
  next
    case True
    define mid where "mid = left + (right - left) div 2"
    have mid: "left \<le> mid" "mid < right" "mid < length work"
      using True "1.prems"(4) by (auto simp add: mid_def)
    have midle: "mid \<le> length work" and midsuc: "mid + 1 \<le> right"
      using mid by simp_all
    show ?thesis
    proof (cases "is_neg (cmp pivot (work ! mid))")
      case neg: True
      have eq: "binarySearch cmp pivot work left right = binarySearch cmp pivot work left mid"
        using True neg by (subst binarySearch.simps) (simp add: mid_def Let_def)
      have above: "\<forall>i. mid \<le> i \<and> i < length work \<longrightarrow> is_neg (cmp pivot (work ! i))"
      proof (intro allI impI)
        fix i assume i: "mid \<le> i \<and> i < length work"
        show "is_neg (cmp pivot (work ! i))"
        proof (cases "i = mid")
          case True
          with neg show ?thesis by simp
        next
          case False
          with i have "mid < i" by simp
          then have "\<not> is_neg (cmp (work ! i) (work ! mid))"
            using "1.prems"(2) i by (simp add: sorted_wrt_iff_nth_less)
          with neg show ?thesis
            using consistent_on_below_left [OF "1.prems"(1), of pivot "work ! mid" "work ! i"] i mid(3)
            by simp
        qed
      qed
      have step: "binarySearch cmp pivot work left mid \<le> length work
       \<and> (\<forall>i<binarySearch cmp pivot work left mid. \<not> is_neg (cmp pivot (work ! i)))
       \<and> (\<forall>i. binarySearch cmp pivot work left mid \<le> i \<and> i < length work
              \<longrightarrow> is_neg (cmp pivot (work ! i)))"
        using "1.IH"(1) [OF True mid_def neg "1.prems"(1) "1.prems"(2) mid(1) midle "1.prems"(5) above] .
      show ?thesis unfolding eq by (rule step)
    next
      case notneg: False
      have eq: "binarySearch cmp pivot work left right = binarySearch cmp pivot work (mid + 1) right"
        using True notneg by (subst binarySearch.simps) (simp add: mid_def Let_def)
      have below: "\<forall>i<mid + 1. \<not> is_neg (cmp pivot (work ! i))"
      proof (intro allI impI)
        fix i assume i: "i < mid + 1"
        show "\<not> is_neg (cmp pivot (work ! i))"
        proof (cases "i = mid")
          case True
          with notneg show ?thesis by simp
        next
          case False
          with i have "i < mid" by simp
          then have "\<not> is_neg (cmp (work ! mid) (work ! i))"
            using "1.prems"(2) mid(3) by (simp add: sorted_wrt_iff_nth_less)
          with notneg show ?thesis
            using consistent_on_negtrans [OF "1.prems"(1), of pivot "work ! mid" "work ! i"] \<open>i < mid\<close> mid(3)
            by simp
        qed
      qed
      have step: "binarySearch cmp pivot work (mid + 1) right \<le> length work
       \<and> (\<forall>i<binarySearch cmp pivot work (mid + 1) right. \<not> is_neg (cmp pivot (work ! i)))
       \<and> (\<forall>i. binarySearch cmp pivot work (mid + 1) right \<le> i \<and> i < length work
              \<longrightarrow> is_neg (cmp pivot (work ! i)))"
        using "1.IH"(2) [OF True mid_def notneg "1.prems"(1) "1.prems"(2) midsuc "1.prems"(4) below "1.prems"(6)] .
      show ?thesis unfolding eq by (rule step)
    qed
  qed
qed

text \<open>One insertion.\<close>

lemma mset_insertPivot: "mset (insertPivot cmp work pivot) = add_mset pivot (mset work)"
proof -
  have "mset (take k work) + mset (drop k work) = mset work" for k
    by (metis append_take_drop_id mset_append)
  then show ?thesis by (simp add: insertPivot_def Let_def)
qed

lemma set_insertPivot: "set (insertPivot cmp work pivot) = insert pivot (set work)"
  using mset_insertPivot [of cmp work pivot] by (metis set_mset_add_mset_insert set_mset_mset)

lemma insertPivot_sorted:
  assumes "consistent_on cmp (insert pivot (set work))"
      and "sorted_wrt (\<lambda>a b. \<not> is_neg (cmp b a)) work"
  shows "sorted_wrt (\<lambda>a b. \<not> is_neg (cmp b a)) (insertPivot cmp work pivot)"
proof -
  define k where "k = binarySearch cmp pivot work 0 (length work)"
  have "binarySearch cmp pivot work 0 (length work) \<le> length work
       \<and> (\<forall>i<binarySearch cmp pivot work 0 (length work). \<not> is_neg (cmp pivot (work ! i)))
       \<and> (\<forall>i. binarySearch cmp pivot work 0 (length work) \<le> i \<and> i < length work
              \<longrightarrow> is_neg (cmp pivot (work ! i)))"
    by (rule binarySearch_spec [OF assms]) auto
  then have spec: "k \<le> length work"
    "\<forall>i<k. \<not> is_neg (cmp pivot (work ! i))"
    "\<forall>i. k \<le> i \<and> i < length work \<longrightarrow> is_neg (cmp pivot (work ! i))"
    unfolding k_def by blast+
  have before: "\<not> is_neg (cmp pivot x)" if "x \<in> set (take k work)" for x
  proof -
    from that obtain i where "i < length (take k work)" "take k work ! i = x"
      by (meson in_set_conv_nth)
    then have "i < k" "work ! i = x" by simp_all
    with spec(2) show ?thesis by blast
  qed
  have after: "is_neg (cmp pivot y)" if "y \<in> set (drop k work)" for y
  proof -
    from that obtain j where "j < length (drop k work)" "drop k work ! j = y"
      by (meson in_set_conv_nth)
    then have "k + j < length work" "work ! (k + j) = y"
      using spec(1) by simp_all
    with spec(3) show ?thesis by (metis le_add1)
  qed
  have after': "\<not> is_neg (cmp y pivot)" if "y \<in> set (drop k work)" for y
    using after [OF that] consistent_on_asym [OF assms(1), of pivot y] that
    by (auto dest: in_set_dropD)
  have "sorted_wrt (\<lambda>a b. \<not> is_neg (cmp b a)) (take k work @ drop k work)"
    using assms(2) by simp
  then have parts: "sorted_wrt (\<lambda>a b. \<not> is_neg (cmp b a)) (take k work)"
    "sorted_wrt (\<lambda>a b. \<not> is_neg (cmp b a)) (drop k work)"
    "\<forall>x\<in>set (take k work). \<forall>y\<in>set (drop k work). \<not> is_neg (cmp y x)"
    unfolding sorted_wrt_append by blast+
  have "sorted_wrt (\<lambda>a b. \<not> is_neg (cmp b a)) (take k work @ pivot # drop k work)"
    using before after' parts by (simp add: sorted_wrt_append)
  then show ?thesis by (simp add: insertPivot_def Let_def k_def)
qed

lemma insertPivot_filter:
  assumes "consistent_on cmp (insert pivot (set work))"
      and "sorted_wrt (\<lambda>a b. \<not> is_neg (cmp b a)) work"
      and "\<forall>y\<in>set work. P pivot \<and> P y \<longrightarrow> \<not> is_neg (cmp pivot y)"
  shows "filter P (insertPivot cmp work pivot) = filter P (work @ [pivot])"
proof -
  define k where "k = binarySearch cmp pivot work 0 (length work)"
  have "binarySearch cmp pivot work 0 (length work) \<le> length work
       \<and> (\<forall>i<binarySearch cmp pivot work 0 (length work). \<not> is_neg (cmp pivot (work ! i)))
       \<and> (\<forall>i. binarySearch cmp pivot work 0 (length work) \<le> i \<and> i < length work
              \<longrightarrow> is_neg (cmp pivot (work ! i)))"
    by (rule binarySearch_spec [OF assms(1,2)]) auto
  then have spec: "k \<le> length work"
    "\<forall>i. k \<le> i \<and> i < length work \<longrightarrow> is_neg (cmp pivot (work ! i))"
    unfolding k_def by blast+
  have after: "is_neg (cmp pivot y)" if "y \<in> set (drop k work)" for y
  proof -
    from that obtain j where "j < length (drop k work)" "drop k work ! j = y"
      by (meson in_set_conv_nth)
    then have "k + j < length work" "work ! (k + j) = y"
      using spec(1) by simp_all
    with spec(2) show ?thesis by (metis le_add1)
  qed
  have split: "filter P work = filter P (take k work) @ filter P (drop k work)"
    by (metis append_take_drop_id filter_append)
  show ?thesis
  proof (cases "P pivot")
    case True
    have "\<not> P y" if "y \<in> set (drop k work)" for y
      using after [OF that] assms(3) True that by (auto dest: in_set_dropD)
    then have "filter P (drop k work) = []"
      by (simp add: filter_empty_conv)
    with True split show ?thesis
      by (simp add: insertPivot_def Let_def k_def)
  next
    case False
    with split show ?thesis
      by (simp add: insertPivot_def Let_def k_def)
  qed
qed

text \<open>All insertions.\<close>

lemma mset_binaryInsertionSort:
  "mset (binaryInsertionSort cmp run rest) = mset run + mset rest"
  unfolding binaryInsertionSort_def
  by (induction rest arbitrary: run) (simp_all add: mset_insertPivot)

lemma binaryInsertionSort_sorted:
  assumes "consistent_on cmp (set run \<union> set rest)"
      and "sorted_wrt (\<lambda>a b. \<not> is_neg (cmp b a)) run"
  shows "sorted_wrt (\<lambda>a b. \<not> is_neg (cmp b a)) (binaryInsertionSort cmp run rest)"
  using assms unfolding binaryInsertionSort_def
proof (induction rest arbitrary: run)
  case Nil
  then show ?case by simp
next
  case (Cons x rest)
  have c: "consistent_on cmp (insert x (set run))"
    using Cons.prems(1) by (rule consistent_on_subset) auto
  have s: "sorted_wrt (\<lambda>a b. \<not> is_neg (cmp b a)) (insertPivot cmp run x)"
    using c Cons.prems(2) by (rule insertPivot_sorted)
  have "consistent_on cmp (set (insertPivot cmp run x) \<union> set rest)"
    using Cons.prems(1) by (rule consistent_on_subset) (auto simp add: set_insertPivot)
  from Cons.IH [OF this s] show ?case by simp
qed

lemma binaryInsertionSort_filter:
  assumes "consistent_on cmp (set run \<union> set rest)"
      and "sorted_wrt (\<lambda>a b. \<not> is_neg (cmp b a)) run"
      and "\<forall>x\<in>set run \<union> set rest. \<forall>y\<in>set run \<union> set rest. P x \<and> P y \<longrightarrow> \<not> is_neg (cmp x y)"
  shows "filter P (binaryInsertionSort cmp run rest) = filter P (run @ rest)"
  using assms unfolding binaryInsertionSort_def
proof (induction rest arbitrary: run)
  case Nil
  then show ?case by simp
next
  case (Cons x rest)
  have c: "consistent_on cmp (insert x (set run))"
    using Cons.prems(1) by (rule consistent_on_subset) auto
  have s: "sorted_wrt (\<lambda>a b. \<not> is_neg (cmp b a)) (insertPivot cmp run x)"
    using c Cons.prems(2) by (rule insertPivot_sorted)
  have f: "filter P (insertPivot cmp run x) = filter P (run @ [x])"
    using c Cons.prems(2) Cons.prems(3) by (intro insertPivot_filter) auto
  have c': "consistent_on cmp (set (insertPivot cmp run x) \<union> set rest)"
    using Cons.prems(1) by (rule consistent_on_subset) (auto simp add: set_insertPivot)
  have p': "\<forall>a\<in>set (insertPivot cmp run x) \<union> set rest.
              \<forall>b\<in>set (insertPivot cmp run x) \<union> set rest. P a \<and> P b \<longrightarrow> \<not> is_neg (cmp a b)"
    using Cons.prems(3) by (auto simp add: set_insertPivot)
  have "filter P (foldl (insertPivot cmp) (insertPivot cmp run x) rest)
          = filter P (insertPivot cmp run x @ rest)"
    using Cons.IH [OF c' s p'] .
  with f show ?case by simp
qed

text \<open>The whole sort: it neither drops nor repeats a row; under a consistent
  comparison its result is in order, and rows of a class none of which is below another
  keep their order.\<close>

lemma mset_array_sort: "mset (array_sort cmp xs) = mset xs"
proof -
  obtain run rest where r: "countAndMakeRun cmp xs = (run, rest)"
    by (cases "countAndMakeRun cmp xs")
  then show ?thesis
    using countAndMakeRun_mset [OF r] by (simp add: array_sort_def mset_binaryInsertionSort)
qed

lemma set_array_sort: "set (array_sort cmp xs) = set xs"
  using mset_array_sort [of cmp xs] by (metis set_mset_mset)

lemma array_sort_sorted:
  assumes "consistent_on cmp (set xs)"
  shows "sorted_wrt (\<lambda>a b. \<not> is_neg (cmp b a)) (array_sort cmp xs)"
proof -
  obtain run rest where r: "countAndMakeRun cmp xs = (run, rest)"
    by (cases "countAndMakeRun cmp xs")
  have "set run \<union> set rest = set xs"
    using countAndMakeRun_mset [OF r] by (metis set_mset_mset set_mset_union)
  then have "consistent_on cmp (set run \<union> set rest)"
    using assms by simp
  then show ?thesis
    using countAndMakeRun_sorted [OF assms r] r
    by (simp add: array_sort_def binaryInsertionSort_sorted)
qed

lemma array_sort_stable:
  assumes "consistent_on cmp (set xs)"
      and "\<forall>x\<in>set xs. \<forall>y\<in>set xs. P x \<and> P y \<longrightarrow> \<not> is_neg (cmp x y)"
  shows "filter P (array_sort cmp xs) = filter P xs"
proof -
  obtain run rest where r: "countAndMakeRun cmp xs = (run, rest)"
    by (cases "countAndMakeRun cmp xs")
  have u: "set run \<union> set rest = set xs"
    using countAndMakeRun_mset [OF r] by (metis set_mset_mset set_mset_union)
  have "filter P (binaryInsertionSort cmp run rest) = filter P (run @ rest)"
    using assms countAndMakeRun_sorted [OF assms(1) r]
    by (intro binaryInsertionSort_filter) (simp_all add: u)
  also have "\<dots> = filter P xs"
    using countAndMakeRun_filter [OF assms(1) r assms(2)] by simp
  finally show ?thesis
    using r by (simp add: array_sort_def)
qed

text \<open>Under a consistent comparison two rows have equal keys exactly when neither is
  below the other, and the rows whose keys equal a given row's keep their order.\<close>

lemma equal_keys_iff:
  "consistent_on cmp A \<Longrightarrow> a \<in> A \<Longrightarrow> b \<in> A \<Longrightarrow>
   equal_keys cmp a b \<longleftrightarrow> \<not> is_neg (cmp a b) \<and> \<not> is_neg (cmp b a)"
  unfolding consistent_on_def equal_keys_def by blast

lemma equal_keys_refl: "consistent_on cmp A \<Longrightarrow> a \<in> A \<Longrightarrow> equal_keys cmp a a"
  unfolding consistent_on_def equal_keys_def by blast

lemma array_sort_equal_keys:
  assumes "consistent_on cmp (set xs)" and "r \<in> set xs"
  shows "filter (equal_keys cmp r) (array_sort cmp xs) = filter (equal_keys cmp r) xs"
proof (rule array_sort_stable [OF assms(1)], intro ballI impI)
  fix x y assume x: "x \<in> set xs" and y: "y \<in> set xs"
    and "equal_keys cmp r x \<and> equal_keys cmp r y"
  then have "\<not> is_neg (cmp x r)" "\<not> is_neg (cmp r y)"
    using assms by (simp_all add: equal_keys_iff)
  then show "\<not> is_neg (cmp x y)"
    using assms x y by (meson consistent_on_negtrans)
qed

text \<open>
  There is one such arrangement only: two lists in order that hold, for each of their rows,
  the rows of equal key in the same order are the same list. So under a consistent
  comparison every sort that is stable gives what \<open>array_sort\<close> gives.
\<close>

lemma stable_sorted_unique:
  assumes "consistent_on cmp (set ys \<union> set zs)"
      and "sorted_wrt (\<lambda>a b. \<not> is_neg (cmp b a)) ys"
      and "sorted_wrt (\<lambda>a b. \<not> is_neg (cmp b a)) zs"
      and "\<forall>r\<in>set ys \<union> set zs. filter (equal_keys cmp r) ys = filter (equal_keys cmp r) zs"
  shows "ys = zs"
  using assms
proof (induction ys arbitrary: zs)
  case Nil
  show ?case
  proof (cases zs)
    case Nil
    then show ?thesis by simp
  next
    case (Cons z zs')
    have "equal_keys cmp z z"
      using Nil.prems(1) Cons by (auto intro: equal_keys_refl)
    with Nil.prems(4) Cons show ?thesis by auto
  qed
next
  case (Cons y ys')
  let ?A = "set (y # ys') \<union> set zs"
  have refl: "equal_keys cmp a a" if "a \<in> ?A" for a
    using Cons.prems(1) that by (rule equal_keys_refl)
  have yA: "y \<in> ?A"
    by simp
  have "filter (equal_keys cmp y) zs = filter (equal_keys cmp y) (y # ys')"
    using Cons.prems(4) by simp
  then have "y \<in> set (filter (equal_keys cmp y) zs)"
    using refl [OF yA] by simp
  then have yin: "y \<in> set zs"
    by simp
  then obtain z zs' where zs: "zs = z # zs'"
    by (cases zs) auto
  have zA: "z \<in> ?A"
    using zs by simp
  have "filter (equal_keys cmp z) (y # ys') = filter (equal_keys cmp z) zs"
    using Cons.prems(4) zA by blast
  then have "z \<in> set (filter (equal_keys cmp z) (y # ys'))"
    using refl [OF zA] zs by simp
  then have zin: "z \<in> set (y # ys')"
    by (simp only: set_filter mem_Collect_eq)
  have zy: "\<not> is_neg (cmp y z)"
  proof (cases "y = z")
    case True
    then show ?thesis using consistent_on_asym [OF Cons.prems(1) yA yA] by auto
  next
    case False
    with yin zs have "y \<in> set zs'" by simp
    with Cons.prems(3) zs show ?thesis by simp
  qed
  have yz: "\<not> is_neg (cmp z y)"
  proof (cases "y = z")
    case True
    then show ?thesis using consistent_on_asym [OF Cons.prems(1) yA yA] by auto
  next
    case False
    with zin have "z \<in> set ys'" by auto
    with Cons.prems(2) show ?thesis by simp
  qed
  have "equal_keys cmp y z"
    using yz zy by (simp add: equal_keys_iff [OF Cons.prems(1) yA zA])
  moreover have "filter (equal_keys cmp y) (y # ys') = filter (equal_keys cmp y) (z # zs')"
    using Cons.prems(4) zs by simp
  ultimately have same: "y = z"
    using refl [OF yA] by simp
  have "ys' = zs'"
  proof (rule Cons.IH)
    show "consistent_on cmp (set ys' \<union> set zs')"
      using Cons.prems(1) by (rule consistent_on_subset) (auto simp add: zs)
    show "sorted_wrt (\<lambda>a b. \<not> is_neg (cmp b a)) ys'"
      using Cons.prems(2) by simp
    show "sorted_wrt (\<lambda>a b. \<not> is_neg (cmp b a)) zs'"
      using Cons.prems(3) zs by simp
    show "\<forall>r\<in>set ys' \<union> set zs'. filter (equal_keys cmp r) ys' = filter (equal_keys cmp r) zs'"
    proof
      fix r assume "r \<in> set ys' \<union> set zs'"
      then have "filter (equal_keys cmp r) (y # ys') = filter (equal_keys cmp r) (z # zs')"
        using Cons.prems(4) zs by auto
      with same show "filter (equal_keys cmp r) ys' = filter (equal_keys cmp r) zs'"
        by (simp split: if_splits)
    qed
  qed
  with same zs show ?case by simp
qed

lemma stable_sort_is_array_sort:
  assumes "consistent_on cmp (set xs)"
      and "set ys = set xs"
      and "sorted_wrt (\<lambda>a b. \<not> is_neg (cmp b a)) ys"
      and "\<forall>r\<in>set xs. filter (equal_keys cmp r) ys = filter (equal_keys cmp r) xs"
  shows "ys = array_sort cmp xs"
proof (rule stable_sorted_unique)
  show "consistent_on cmp (set ys \<union> set (array_sort cmp xs))"
    using assms(1,2) by (simp add: set_array_sort)
  show "sorted_wrt (\<lambda>a b. \<not> is_neg (cmp b a)) ys"
    by (rule assms(3))
  show "sorted_wrt (\<lambda>a b. \<not> is_neg (cmp b a)) (array_sort cmp xs)"
    using assms(1) by (rule array_sort_sorted)
  show "\<forall>r\<in>set ys \<union> set (array_sort cmp xs).
          filter (equal_keys cmp r) ys = filter (equal_keys cmp r) (array_sort cmp xs)"
    using assms(1,2,4) by (simp add: set_array_sort array_sort_equal_keys)
qed


section \<open>Where the comparison of a column is consistent\<close>

text \<open>The comparison looks at the two cells only.\<close>

lemma sortComparator_cells:
  "getField a (dataIndex c) = getField a' (dataIndex c) \<Longrightarrow>
   getField b (dataIndex c) = getField b' (dataIndex c) \<Longrightarrow>
   sortComparator localeCompare toStr dir c a b = sortComparator localeCompare toStr dir c a' b'"
  unfolding sortComparator_def by presburger

text \<open>What it returns, by the cells.\<close>

lemma sortComparator_absent_absent:
  "isNullish (getField a (dataIndex c)) \<Longrightarrow> isNullish (getField b (dataIndex c)) \<Longrightarrow>
   sortComparator localeCompare toStr dir c a b = Fin 0"
  by (simp add: sortComparator_def)

lemma sortComparator_absent_present:
  "isNullish (getField a (dataIndex c)) \<Longrightarrow> \<not> isNullish (getField b (dataIndex c)) \<Longrightarrow>
   sortComparator localeCompare toStr dir c a b = (if dir = Some Asc then Fin (- 1) else Fin 1)"
  by (simp add: sortComparator_def)

lemma sortComparator_present_absent:
  "\<not> isNullish (getField a (dataIndex c)) \<Longrightarrow> isNullish (getField b (dataIndex c)) \<Longrightarrow>
   sortComparator localeCompare toStr dir c a b = (if dir = Some Asc then Fin 1 else Fin (- 1))"
  by (simp add: sortComparator_def)

lemma sortComparator_numbers:
  "getField a (dataIndex c) = VNumber n \<Longrightarrow> getField b (dataIndex c) = VNumber m \<Longrightarrow>
   sortComparator localeCompare toStr dir c a b
     = (if dir = Some Asc then num_sub n m else num_sub m n)"
  by (simp add: sortComparator_def)

lemma sortComparator_strings:
  "getField a (dataIndex c) = VString x \<Longrightarrow> getField b (dataIndex c) = VString y \<Longrightarrow>
   sortComparator localeCompare toStr dir c a b
     = (if dir = Some Asc then localeCompare x y else num_neg (localeCompare x y))"
  by (simp add: sortComparator_def)

lemmas sortComparator_by_cells =
  sortComparator_absent_absent sortComparator_absent_present sortComparator_present_absent
  sortComparator_numbers sortComparator_strings

lemma is_neg_num_neg: "is_neg (num_neg x) = is_pos x"
  by (cases x) simp_all

lemma is_pos_num_neg: "is_pos (num_neg x) = is_neg x"
  by (cases x) simp_all

lemma num_sub_pos_neg: "is_pos (num_sub n m) = is_neg (num_sub m n)"
  by (cases n; cases m) auto

lemma num_sub_asym: "is_neg (num_sub n m) \<Longrightarrow> \<not> is_neg (num_sub m n)"
  by (cases n; cases m) auto

lemma num_sub_negtrans:
  "m \<noteq> NaN \<Longrightarrow> \<not> is_neg (num_sub n m) \<Longrightarrow> \<not> is_neg (num_sub m k) \<Longrightarrow> \<not> is_neg (num_sub n k)"
  by (cases n; cases m; cases k) auto

text \<open>
  Numbers other than \<open>NaN\<close>, with absent cells among them: a consistent order, in
  either direction.
\<close>

lemma sortComparator_consistent_numbers:
  assumes "\<forall>r\<in>A. isNullish (getField r (dataIndex c))
                \<or> (\<exists>n. getField r (dataIndex c) = VNumber n \<and> n \<noteq> NaN)"
  shows "consistent_on (sortComparator localeCompare toStr dir c) A"
  unfolding consistent_on_def
proof (intro conjI ballI impI)
  fix a b assume "a \<in> A" "b \<in> A"
  with assms have
    "isNullish (getField a (dataIndex c)) \<or> (\<exists>n. getField a (dataIndex c) = VNumber n \<and> n \<noteq> NaN)"
    "isNullish (getField b (dataIndex c)) \<or> (\<exists>n. getField b (dataIndex c) = VNumber n \<and> n \<noteq> NaN)"
    by blast+
  then show "is_pos (sortComparator localeCompare toStr dir c a b)
             \<longleftrightarrow> is_neg (sortComparator localeCompare toStr dir c b a)"
    by (elim disjE exE conjE) (simp_all add: sortComparator_by_cells num_sub_pos_neg)
next
  fix a b assume "a \<in> A" "b \<in> A" and neg: "is_neg (sortComparator localeCompare toStr dir c a b)"
  with assms have
    "isNullish (getField a (dataIndex c)) \<or> (\<exists>n. getField a (dataIndex c) = VNumber n \<and> n \<noteq> NaN)"
    "isNullish (getField b (dataIndex c)) \<or> (\<exists>n. getField b (dataIndex c) = VNumber n \<and> n \<noteq> NaN)"
    by blast+
  then show "\<not> is_neg (sortComparator localeCompare toStr dir c b a)"
    using neg
    by (elim disjE exE conjE)
       (auto simp add: sortComparator_by_cells dest: num_sub_asym split: if_splits)
next
  fix a b d assume "a \<in> A" "b \<in> A" "d \<in> A"
    and nn: "\<not> is_neg (sortComparator localeCompare toStr dir c a b)
     \<and> \<not> is_neg (sortComparator localeCompare toStr dir c b d)"
  with assms have
    "isNullish (getField a (dataIndex c)) \<or> (\<exists>n. getField a (dataIndex c) = VNumber n \<and> n \<noteq> NaN)"
    "isNullish (getField b (dataIndex c)) \<or> (\<exists>n. getField b (dataIndex c) = VNumber n \<and> n \<noteq> NaN)"
    "isNullish (getField d (dataIndex c)) \<or> (\<exists>n. getField d (dataIndex c) = VNumber n \<and> n \<noteq> NaN)"
    by blast+
  then show "\<not> is_neg (sortComparator localeCompare toStr dir c a d)"
    using nn
    by (elim disjE exE conjE)
       (auto simp add: sortComparator_by_cells split: if_splits dest: num_sub_negtrans)
qed

text \<open>
  Strings, with absent cells among them, under a collation that is itself a consistent
  order.
\<close>

lemma sortComparator_consistent_strings:
  assumes "consistent_on localeCompare UNIV"
      and "\<forall>r\<in>A. isNullish (getField r (dataIndex c)) \<or> (\<exists>s. getField r (dataIndex c) = VString s)"
  shows "consistent_on (sortComparator localeCompare toStr dir c) A"
  unfolding consistent_on_def
proof (intro conjI ballI impI)
  have lc1: "is_pos (localeCompare x y) = is_neg (localeCompare y x)" for x y
    using assms(1) unfolding consistent_on_def by blast
  fix a b assume "a \<in> A" "b \<in> A"
  with assms(2) have
    "isNullish (getField a (dataIndex c)) \<or> (\<exists>s. getField a (dataIndex c) = VString s)"
    "isNullish (getField b (dataIndex c)) \<or> (\<exists>s. getField b (dataIndex c) = VString s)"
    by blast+
  then show "is_pos (sortComparator localeCompare toStr dir c a b)
             \<longleftrightarrow> is_neg (sortComparator localeCompare toStr dir c b a)"
    by (elim disjE exE conjE)
       (simp_all add: sortComparator_by_cells is_neg_num_neg is_pos_num_neg lc1)
next
  have lc1: "is_pos (localeCompare x y) = is_neg (localeCompare y x)" for x y
    using assms(1) unfolding consistent_on_def by blast
  have lc2: "is_neg (localeCompare x y) \<Longrightarrow> \<not> is_neg (localeCompare y x)" for x y
    using assms(1) unfolding consistent_on_def by blast
  fix a b assume "a \<in> A" "b \<in> A" and neg: "is_neg (sortComparator localeCompare toStr dir c a b)"
  with assms(2) have
    "isNullish (getField a (dataIndex c)) \<or> (\<exists>s. getField a (dataIndex c) = VString s)"
    "isNullish (getField b (dataIndex c)) \<or> (\<exists>s. getField b (dataIndex c) = VString s)"
    by blast+
  then show "\<not> is_neg (sortComparator localeCompare toStr dir c b a)"
    using neg
    by (elim disjE exE conjE)
       (auto simp add: sortComparator_by_cells is_neg_num_neg lc1 dest: lc2 split: if_splits)
next
  have lc1: "is_pos (localeCompare x y) = is_neg (localeCompare y x)" for x y
    using assms(1) unfolding consistent_on_def by blast
  have lc3: "\<not> is_neg (localeCompare x y) \<Longrightarrow> \<not> is_neg (localeCompare y z)
             \<Longrightarrow> \<not> is_neg (localeCompare x z)" for x y z
    using assms(1) unfolding consistent_on_def by blast
  fix a b d assume "a \<in> A" "b \<in> A" "d \<in> A"
    and nn: "\<not> is_neg (sortComparator localeCompare toStr dir c a b)
     \<and> \<not> is_neg (sortComparator localeCompare toStr dir c b d)"
  with assms(2) have
    "isNullish (getField a (dataIndex c)) \<or> (\<exists>s. getField a (dataIndex c) = VString s)"
    "isNullish (getField b (dataIndex c)) \<or> (\<exists>s. getField b (dataIndex c) = VString s)"
    "isNullish (getField d (dataIndex c)) \<or> (\<exists>s. getField d (dataIndex c) = VString s)"
    by blast+
  then show "\<not> is_neg (sortComparator localeCompare toStr dir c a d)"
    using nn
    by (elim disjE exE conjE)
       (auto simp add: sortComparator_by_cells is_neg_num_neg lc1 split: if_splits dest: lc3)
qed

lemma codeUnitCompare_refl: "codeUnitCompare s s = Fin 0"
  by (induction s) simp_all

section \<open>What is emitted\<close>







section \<open>The examples, evaluated\<close>

lemmas example_rows =
  mockUser_def john_def jane_def bob_def joan_def mockUsers_def

lemmas example_columns =
  nameColumn_def emailColumn_def ageColumn_def statusColumn_def mockColumns_def

lemmas run_array_sort =
  array_sort_def binaryInsertionSort_def insertPivot_def binarySearch.simps Let_def

lemma rowKeys_mockProps:
  "rowKeys mockProps = [VNumber (Fin 1), VNumber (Fin 2), VNumber (Fin 3)]"
  by (simp add: rowKeys_def mockProps_def example_rows getRowKey_def getField_def
      enumerate_eq_zip upt_rec)

lemma rowKeys_shrunkProps: "rowKeys shrunkProps = [VNumber (Fin 1), VNumber (Fin 2)]"
  by (simp add: rowKeys_def shrunkProps_def mockProps_def example_rows getRowKey_def
      getField_def enumerate_eq_zip upt_rec)

lemma length_data_mockProps: "length (data mockProps) = 3"
  by (simp add: mockProps_def mockUsers_def)

lemma length_data_shrunkProps: "length (data shrunkProps) = 2"
  by (simp add: shrunkProps_def)


text \<open>
  The calls of \<open>handleRowSelect\<close> used in the examples below are what clicks on the
  checkboxes of the rows make: on Bob's in the full table, on John's in the shrunk one.
\<close>

lemma clickRow_bob:
  "clickRow localeCompare toStr mockProps 2 initialState
     = handleRowSelect mockProps (VNumber (Fin 3)) bob initialState"
  by (simp add: clickRow_def Let_def sortedData_def initialState_def mockProps_def
      mockUsers_def getRowKey_def getField_def bob_def mockUser_def)

lemma clickRow_john_shrunk:
  "sortState s = sortState initialState \<Longrightarrow>
   clickRow localeCompare toStr shrunkProps 0 s
     = handleRowSelect shrunkProps (VNumber (Fin 1)) john s"
  by (simp add: clickRow_def Let_def sortedData_def initialState_def shrunkProps_def
      mockProps_def getRowKey_def getField_def john_def mockUser_def)

text \<open>
  The two sorting tests of the test file: a click on \<open>Name\<close> shows Bob, Jane, John; a click
  on \<open>Age\<close> shows the ages 25, 30, 35.
\<close>

lemma test_sort_by_name:
  "sortedData codeUnitCompare (\<lambda>v. []) mockProps
     (sortState (handleSort nameColumn initialState)) = [bob, jane, john]"
  by (simp add: sortState_handleSort initialState_def sortedData_def mockProps_def
      example_columns example_rows run_array_sort sortComparator_def getField_def)

lemma test_sort_by_age:
  "sortedData codeUnitCompare (\<lambda>v. []) mockProps
     (sortState (handleSort ageColumn initialState)) = [jane, john, bob]"
  by (simp add: sortState_handleSort initialState_def sortedData_def mockProps_def
      example_columns example_rows run_array_sort sortComparator_def getField_def)

text \<open>With Joan in the table, by age in each direction.\<close>

lemma sortedData_tied_asc:
  "sortedData codeUnitCompare (\<lambda>v. []) tiedProps
      \<lparr>SortState.key = Some ''age'', direction = Some Asc\<rparr> = [jane, john, joan, bob]"
  by (simp add: sortedData_def tiedProps_def mockProps_def example_columns example_rows
      run_array_sort sortComparator_def getField_def)

lemma sortedData_tied_desc:
  "sortedData codeUnitCompare (\<lambda>v. []) tiedProps
      \<lparr>SortState.key = Some ''age'', direction = Some Desc\<rparr> = [bob, john, joan, jane]"
  by (simp add: sortedData_def tiedProps_def mockProps_def example_columns example_rows
      run_array_sort sortComparator_def getField_def)

text \<open>Absent ages first, in the order they had.\<close>

lemma sortedData_absent_asc:
  "sortedData codeUnitCompare mixedString absentProps
      \<lparr>SortState.key = Some ''age'', direction = Some Asc\<rparr> = [nullAge, noAge, jane]"
  by (simp add: sortedData_def absentProps_def mockProps_def example_columns example_rows
      nullAge_def noAge_def run_array_sort sortComparator_def getField_def objectPrototype_def)

text \<open>
  A column that mixes numbers and strings: 3 is below 10 as a number, 10 below \<open>'2'\<close> and
  \<open>'2'\<close> below 3 as strings. On such a column the comparison is no consistent order.
\<close>

lemma mixed_column_cycle:
  assumes "toStr (VNumber (Fin 3)) = ''3''"
      and "toStr (VNumber (Fin 10)) = ''10''"
      and "toStr (VString ''2'') = ''2''"
  shows "is_neg (sortComparator codeUnitCompare toStr (Some Asc) ageColumn
            [(''age'', VNumber (Fin 3))] [(''age'', VNumber (Fin 10))])
       \<and> is_neg (sortComparator codeUnitCompare toStr (Some Asc) ageColumn
            [(''age'', VNumber (Fin 10))] [(''age'', VString ''2'')])
       \<and> is_neg (sortComparator codeUnitCompare toStr (Some Asc) ageColumn
            [(''age'', VString ''2'')] [(''age'', VNumber (Fin 3))])"
  using assms by (simp add: sortComparator_def Let_def getField_def ageColumn_def)


section \<open>Row selection\<close>

text \<open>
  One toggle flips the membership of the identity it is given and leaves every other
  identity as it was. The component has this one way of selecting, switched on by
  \<open>selectable\<close>; it has no selection mode to choose.
\<close>

lemma handleRowSelect_flips_membership:
  "(k |\<in>| selectedRows (fst (handleRowSelect p k r s)) \<longleftrightarrow> k |\<notin>| selectedRows s)
   \<and> (\<forall>j. j \<noteq> k \<longrightarrow>
         (j |\<in>| selectedRows (fst (handleRowSelect p k r s)) \<longleftrightarrow> j |\<in>| selectedRows s))"
  by (auto simp add: selectedRows_handleRowSelect)





text \<open>
  Claim C10. Toggling the same identity twice in a row gives back the stored selection set
  as it was before the first toggle.
\<close>

theorem handleRowSelect_twice:
  "selectedRows (fst (handleRowSelect p k r' (fst (handleRowSelect p k r s)))) = selectedRows s"
  by (auto simp add: selectedRows_handleRowSelect)

text \<open>With John selected, selecting Jane and then deselecting her leaves John.\<close>

theorem handleRowSelect_twice_witness:
  "selectedRows (fst (handleRowSelect mockProps (VNumber (Fin 2)) jane
      (fst (handleRowSelect mockProps (VNumber (Fin 2)) jane
        (fst (handleRowSelect mockProps (VNumber (Fin 1)) john initialState))))))
     = {|VNumber (Fin 1)|}"
proof -
  have sel: "selectedRows (fst (handleRowSelect mockProps (VNumber (Fin 1)) john initialState))
      = {|VNumber (Fin 1)|}"
    by (simp add: selectedRows_handleRowSelect initialState_def)
  show ?thesis
    using handleRowSelect_twice [of mockProps "VNumber (Fin 2)" jane jane
        "fst (handleRowSelect mockProps (VNumber (Fin 1)) john initialState)"]
    by (simp only: sel)
qed


section \<open>Select all\<close>

text \<open>
  What \<open>handleSelectAll\<close> tests is the two sizes. Where the identities of the rows are
  pairwise distinct and every selected identity is one of them, the sizes agree exactly
  when the selection is the full set of identities.
\<close>

lemma handleSelectAll_by_size:
  "selectedRows (fst (handleSelectAll p s)) =
     (if fcard (selectedRows s) = length (data p) then {||} else fset_of_list (rowKeys p))
   \<and> (distinct (rowKeys p) \<and> selectedRows s |\<subseteq>| fset_of_list (rowKeys p) \<longrightarrow>
        selectedRows (fst (handleSelectAll p s)) =
          (if selectedRows s = fset_of_list (rowKeys p) then {||} else fset_of_list (rowKeys p)))"
  using full_iff_size [of p "selectedRows s"]
  by (simp add: selectedRows_handleSelectAll)

text \<open>
  Claim C3: select-all clears the selection only when the selection is the full set of
  identities, and otherwise selects every row. The code misses this where an identity
  without a row is selected. Bob is selected, the host takes Bob's row away, John is
  selected: the selection \<open>{1, 3}\<close> is not the identity set \<open>{1, 2}\<close> of the two rows left,
  and Jane's row is not selected; yet the test the code makes for "all rows are selected"
  holds, and select-all clears the selection instead of selecting John and Jane.
\<close>

theorem handleSelectAll_clears_stale_selection:
  "selectedRows (fst (handleRowSelect shrunkProps (VNumber (Fin 1)) john
       (fst (handleRowSelect mockProps (VNumber (Fin 3)) bob initialState))))
     = {|VNumber (Fin 1), VNumber (Fin 3)|}
   \<and> {|VNumber (Fin 1), VNumber (Fin 3)|} \<noteq> fset_of_list (rowKeys shrunkProps)
   \<and> fset_of_list (rowKeys shrunkProps) = {|VNumber (Fin 1), VNumber (Fin 2)|}
   \<and> isAllSelected shrunkProps
        (fst (handleRowSelect shrunkProps (VNumber (Fin 1)) john
          (fst (handleRowSelect mockProps (VNumber (Fin 3)) bob initialState))))
   \<and> selectedRows (fst (handleSelectAll shrunkProps
        (fst (handleRowSelect shrunkProps (VNumber (Fin 1)) john
          (fst (handleRowSelect mockProps (VNumber (Fin 3)) bob initialState))))))
     = {||}"
proof -
  have sel: "selectedRows (fst (handleRowSelect shrunkProps (VNumber (Fin 1)) john
       (fst (handleRowSelect mockProps (VNumber (Fin 3)) bob initialState))))
      = {|VNumber (Fin 1), VNumber (Fin 3)|}"
    by (simp add: selectedRows_handleRowSelect initialState_def)
  have card: "fcard {|VNumber (Fin 1), VNumber (Fin 3)|} = 2"
    by (simp add: fcard_finsert_if fcard_fempty)
  have "VNumber (Fin 3) |\<in>| {|VNumber (Fin 1), VNumber (Fin 3)|}"
    by simp
  moreover have "VNumber (Fin 3) |\<notin>| fset_of_list (rowKeys shrunkProps)"
    by (simp add: rowKeys_shrunkProps)
  ultimately have ne:
    "{|VNumber (Fin 1), VNumber (Fin 3)|} \<noteq> fset_of_list (rowKeys shrunkProps)"
    by metis
  have keys: "fset_of_list (rowKeys shrunkProps) = {|VNumber (Fin 1), VNumber (Fin 2)|}"
    by (simp add: rowKeys_shrunkProps)
  have allsel: "isAllSelected shrunkProps
        (fst (handleRowSelect shrunkProps (VNumber (Fin 1)) john
          (fst (handleRowSelect mockProps (VNumber (Fin 3)) bob initialState))))"
    by (simp add: isAllSelected_def sel card length_data_shrunkProps)
  have cleared: "selectedRows (fst (handleSelectAll shrunkProps
        (fst (handleRowSelect shrunkProps (VNumber (Fin 1)) john
          (fst (handleRowSelect mockProps (VNumber (Fin 3)) bob initialState))))))
     = {||}"
    by (simp add: selectedRows_handleSelectAll sel card length_data_shrunkProps)
  show ?thesis
    using sel ne keys allsel cleared by blast
qed

text \<open>
  Claim C4, as the code has it. With an unchanged data set whose row identities are
  pairwise distinct, two calls of \<open>handleSelectAll\<close> in a row bring the selection back to
  where it started exactly when it started empty or as the full set of identities.
\<close>

theorem handleSelectAll_twice:
  assumes "distinct (rowKeys p)"
  shows "selectedRows (fst (handleSelectAll p (fst (handleSelectAll p s)))) = selectedRows s
         \<longleftrightarrow> selectedRows s = {||} \<or> selectedRows s = fset_of_list (rowKeys p)"
proof (cases "fcard (selectedRows s) = length (data p)")
  case True
  show ?thesis
  proof (cases "data p = []")
    case True
    with \<open>fcard (selectedRows s) = length (data p)\<close> show ?thesis
      by (auto simp add: selectedRows_handleSelectAll)
  next
    case False
    with True have "selectedRows s \<noteq> {||}" by (auto simp add: fcard_fempty)
    with True False show ?thesis
      by (auto simp add: selectedRows_handleSelectAll fcard_fempty)
  qed
next
  case False
  then have "selectedRows s \<noteq> fset_of_list (rowKeys p)"
    using assms by (auto simp add: fcard_fset_of_list_distinct length_rowKeys)
  with False assms show ?thesis
    by (auto simp add: selectedRows_handleSelectAll fcard_fset_of_list_distinct length_rowKeys)
qed

text \<open>On the test table with nothing selected, select-all twice selects nothing.\<close>

theorem handleSelectAll_twice_witness:
  "distinct (rowKeys mockProps)
   \<and> selectedRows (fst (handleSelectAll mockProps (fst (handleSelectAll mockProps initialState))))
       = selectedRows initialState"
proof -
  have d: "distinct (rowKeys mockProps)"
    by (simp add: rowKeys_mockProps)
  show ?thesis
    using d handleSelectAll_twice [OF d, of initialState]
    by (simp add: initialState_def)
qed

text \<open>
  Claim C4 as stated fails: with John alone selected, select-all twice leaves nothing
  selected.
\<close>

theorem handleSelectAll_twice_counterexample:
  "selectedRows (fst (handleSelectAll mockProps (fst (handleSelectAll mockProps
       (fst (handleRowSelect mockProps (VNumber (Fin 1)) john initialState))))))
   \<noteq> selectedRows (fst (handleRowSelect mockProps (VNumber (Fin 1)) john initialState))"
proof -
  have sel: "selectedRows (fst (handleRowSelect mockProps (VNumber (Fin 1)) john initialState))
      = {|VNumber (Fin 1)|}"
    by (simp add: selectedRows_handleRowSelect initialState_def)
  have c1: "fcard {|VNumber (Fin 1)|} = 1"
    by (simp add: fcard_finsert_if fcard_fempty)
  have c3: "fcard {|VNumber (Fin 1), VNumber (Fin 2), VNumber (Fin 3)|} = 3"
    by (simp add: fcard_finsert_if fcard_fempty)
  have twice: "selectedRows (fst (handleSelectAll mockProps (fst (handleSelectAll mockProps
       (fst (handleRowSelect mockProps (VNumber (Fin 1)) john initialState)))))) = {||}"
    by (simp add: sel c1 c3 selectedRows_handleSelectAll length_data_mockProps rowKeys_mockProps)
  show ?thesis
    by (simp only: twice sel fempty_not_finsert not_False_eq_True)
qed

section \<open>The sort state\<close>

text \<open>
  Claim C5. In a reachable state no column is active exactly when there is no direction.
  For a sortable column \<open>C\<close>, \<open>handleSort C\<close> takes the state with no sort to \<open>C\<close>
  ascending, \<open>C\<close> ascending to \<open>C\<close> descending, and \<open>C\<close> descending to the state with no
  sort and no active column; and whenever \<open>C\<close> is not the active column, whatever the
  active column's direction, it yields \<open>C\<close> ascending. After a first click on \<open>C\<close>, three
  more bring the same sort state back.
\<close>

theorem handleSort_cycle:
  assumes "reachable s" and "sortable C = Some True"
  shows "(direction (sortState s) = None \<longleftrightarrow> SortState.key (sortState s) = None)
    \<and> (direction (sortState s) = None \<longrightarrow>
         sortState (handleSort C s) = \<lparr>SortState.key = Some (Column.key C), direction = Some Asc\<rparr>)
    \<and> (sortState s = \<lparr>SortState.key = Some (Column.key C), direction = Some Asc\<rparr> \<longrightarrow>
         sortState (handleSort C s) = \<lparr>SortState.key = Some (Column.key C), direction = Some Desc\<rparr>)
    \<and> (sortState s = \<lparr>SortState.key = Some (Column.key C), direction = Some Desc\<rparr> \<longrightarrow>
         sortState (handleSort C s) = \<lparr>SortState.key = None, direction = None\<rparr>)
    \<and> (SortState.key (sortState s) \<noteq> Some (Column.key C) \<longrightarrow>
         sortState (handleSort C s) = \<lparr>SortState.key = Some (Column.key C), direction = Some Asc\<rparr>)
    \<and> sortState (handleSort C (handleSort C (handleSort C (handleSort C s))))
         = sortState (handleSort C s)"
  using reachable_key_iff_direction [OF assms(1)] assms(2)
  by (auto simp add: sortState_handleSort)

text \<open>Three clicks on \<open>Name\<close> from the start, and a click on \<open>Age\<close> while \<open>Name\<close> is
  descending.\<close>

theorem handleSort_cycle_witness:
  "reachable initialState
   \<and> sortable nameColumn = Some True
   \<and> sortable ageColumn = Some True
   \<and> sortState (handleSort nameColumn initialState)
       = \<lparr>SortState.key = Some ''name'', direction = Some Asc\<rparr>
   \<and> sortState (handleSort nameColumn (handleSort nameColumn initialState))
       = \<lparr>SortState.key = Some ''name'', direction = Some Desc\<rparr>
   \<and> sortState (handleSort nameColumn (handleSort nameColumn (handleSort nameColumn initialState)))
       = \<lparr>SortState.key = None, direction = None\<rparr>
   \<and> sortState (handleSort ageColumn (handleSort nameColumn (handleSort nameColumn initialState)))
       = \<lparr>SortState.key = Some ''age'', direction = Some Asc\<rparr>"
proof -
  have r0: "reachable initialState"
    by (rule reachable.init)
  have r1: "reachable (handleSort nameColumn initialState)"
    using r0 by (rule reachable.on_sort)
  have r2: "reachable (handleSort nameColumn (handleSort nameColumn initialState))"
    using r1 by (rule reachable.on_sort)
  have n: "sortable nameColumn = Some True" "Column.key nameColumn = ''name''"
    by (simp_all add: nameColumn_def)
  have a: "sortable ageColumn = Some True" "Column.key ageColumn = ''age''"
    by (simp_all add: ageColumn_def)
  have s1: "sortState (handleSort nameColumn initialState)
       = \<lparr>SortState.key = Some ''name'', direction = Some Asc\<rparr>"
    using handleSort_cycle [OF r0 n(1)] by (simp add: initialState_def n(2))
  have s2: "sortState (handleSort nameColumn (handleSort nameColumn initialState))
       = \<lparr>SortState.key = Some ''name'', direction = Some Desc\<rparr>"
    using handleSort_cycle [OF r1 n(1)] by (simp add: s1 n(2))
  have s3: "sortState (handleSort nameColumn (handleSort nameColumn (handleSort nameColumn initialState)))
       = \<lparr>SortState.key = None, direction = None\<rparr>"
    using handleSort_cycle [OF r2 n(1)] by (simp add: s2 n(2))
  have s4: "sortState (handleSort ageColumn (handleSort nameColumn (handleSort nameColumn initialState)))
       = \<lparr>SortState.key = Some ''age'', direction = Some Asc\<rparr>"
    using handleSort_cycle [OF r2 a(1)] by (simp add: s2 a(2))
  show ?thesis
    using r0 n(1) a(1) s1 s2 s3 s4 by simp
qed


section \<open>The derived view\<close>

text \<open>
  Claim C7. With no active column, or with an active key that no column of the column
  list has, \<open>sortedData\<close> is the data as given.
\<close>

theorem sortedData_unsorted:
  "(SortState.key st = None \<longrightarrow> sortedData localeCompare toStr p st = data p)
   \<and> (\<forall>k. SortState.key st = Some k \<and> find (\<lambda>col. Column.key col = k) (columns p) = None
          \<longrightarrow> sortedData localeCompare toStr p st = data p)"
  by (simp add: sortedData_def)

text \<open>The test table before any click, and with a sort key \<open>salary\<close> it has no column
  for.\<close>

theorem sortedData_unsorted_witness:
  "SortState.key (sortState initialState) = None
   \<and> sortedData codeUnitCompare (\<lambda>v. []) mockProps (sortState initialState) = [john, jane, bob]
   \<and> find (\<lambda>col. Column.key col = ''salary'') (columns mockProps) = None
   \<and> sortedData codeUnitCompare (\<lambda>v. []) mockProps
        \<lparr>SortState.key = Some ''salary'', direction = Some Asc\<rparr> = [john, jane, bob]"
proof -
  have none: "SortState.key (sortState initialState) = None"
    by (simp add: initialState_def)
  have missing: "find (\<lambda>col. Column.key col = ''salary'') (columns mockProps) = None"
    by (simp add: mockProps_def example_columns)
  have rows: "data mockProps = [john, jane, bob]"
    by (simp add: mockProps_def mockUsers_def)
  show ?thesis
    using none missing
      sortedData_unsorted [of "sortState initialState" codeUnitCompare "\<lambda>v. []" mockProps]
      sortedData_unsorted [of "\<lparr>SortState.key = Some ''salary'', direction = Some Asc\<rparr>"
         codeUnitCompare "\<lambda>v. []" mockProps]
    by (simp add: rows)
qed

text \<open>
  Claim C6, as the code has it. Take a data set on whose rows the comparison of the column
  found is a consistent order, in the direction at hand. Then the rows whose sort keys
  compare equal to the key of any one row come in the derived view in the order they have
  in the data, and so do the rows that hold one and the same value in the column. This is
  so in either direction.
\<close>

theorem sortedData_stable:
  assumes "find (\<lambda>col. Column.key col = k) (columns p) = Some column"
      and "consistent_on (sortComparator localeCompare toStr (Some d) column) (set (data p))"
  shows "(\<forall>r\<in>set (data p).
            filter (equal_keys (sortComparator localeCompare toStr (Some d) column) r)
              (sortedData localeCompare toStr p \<lparr>SortState.key = Some k, direction = Some d\<rparr>)
            = filter (equal_keys (sortComparator localeCompare toStr (Some d) column) r) (data p))
       \<and> (\<forall>v. filter (\<lambda>r. getField r (dataIndex column) = v)
                 (sortedData localeCompare toStr p \<lparr>SortState.key = Some k, direction = Some d\<rparr>)
               = filter (\<lambda>r. getField r (dataIndex column) = v) (data p))"
proof (cases "k = []")
  case True
  then show ?thesis by (simp add: sortedData_def)
next
  case False
  let ?cmp = "sortComparator localeCompare toStr (Some d) column"
  have view: "sortedData localeCompare toStr p \<lparr>SortState.key = Some k, direction = Some d\<rparr>
                = array_sort ?cmp (data p)"
    using False assms(1) by (simp add: sortedData_def)
  have keys: "filter (equal_keys ?cmp r) (array_sort ?cmp (data p))
                = filter (equal_keys ?cmp r) (data p)" if "r \<in> set (data p)" for r
    using assms(2) that by (rule array_sort_equal_keys)
  have cells: "filter (\<lambda>r. getField r (dataIndex column) = v) (array_sort ?cmp (data p))
                = filter (\<lambda>r. getField r (dataIndex column) = v) (data p)" for v
  proof (rule array_sort_stable [OF assms(2)], intro ballI impI)
    fix x y assume x: "x \<in> set (data p)" and y: "y \<in> set (data p)"
      and "getField x (dataIndex column) = v \<and> getField y (dataIndex column) = v"
    then have "?cmp x y = ?cmp x x"
      by (intro sortComparator_cells) simp_all
    moreover have "\<not> is_neg (?cmp x x)"
      using consistent_on_asym [OF assms(2) x x] by blast
    ultimately show "\<not> is_neg (?cmp x y)" by simp
  qed
  show ?thesis
    unfolding view using keys cells by blast
qed

text \<open>
  John and Joan, both 30, keep their order by age ascending and descending; the row
  whose age is \<open>null\<close> and the row without an age, whose keys compare equal, keep theirs.
\<close>

theorem sortedData_stable_witness:
  "find (\<lambda>col. Column.key col = ''age'') (columns tiedProps) = Some ageColumn
   \<and> consistent_on (sortComparator codeUnitCompare mixedString (Some Asc) ageColumn)
        (set (data tiedProps))
   \<and> consistent_on (sortComparator codeUnitCompare mixedString (Some Desc) ageColumn)
        (set (data tiedProps))
   \<and> filter (\<lambda>r. getField r (dataIndex ageColumn) = VNumber (Fin 30))
        (sortedData codeUnitCompare mixedString tiedProps
           \<lparr>SortState.key = Some ''age'', direction = Some Asc\<rparr>) = [john, joan]
   \<and> filter (\<lambda>r. getField r (dataIndex ageColumn) = VNumber (Fin 30))
        (sortedData codeUnitCompare mixedString tiedProps
           \<lparr>SortState.key = Some ''age'', direction = Some Desc\<rparr>) = [john, joan]
   \<and> find (\<lambda>col. Column.key col = ''age'') (columns absentProps) = Some ageColumn
   \<and> consistent_on (sortComparator codeUnitCompare mixedString (Some Asc) ageColumn)
        (set (data absentProps))
   \<and> nullAge \<in> set (data absentProps)
   \<and> filter (equal_keys (sortComparator codeUnitCompare mixedString (Some Asc) ageColumn) nullAge)
        (sortedData codeUnitCompare mixedString absentProps
           \<lparr>SortState.key = Some ''age'', direction = Some Asc\<rparr>) = [nullAge, noAge]"
proof -
  have col: "find (\<lambda>col. Column.key col = ''age'') (columns tiedProps) = Some ageColumn"
    by (simp add: tiedProps_def mockProps_def example_columns)
  have cons: "consistent_on (sortComparator codeUnitCompare mixedString (Some d) ageColumn)
                (set (data tiedProps))" for d
    by (rule sortComparator_consistent_numbers)
       (simp add: tiedProps_def ageColumn_def getField_def example_rows)
  have tied: "filter (\<lambda>r. getField r (dataIndex ageColumn) = VNumber (Fin 30)) (data tiedProps)
                = [john, joan]"
    by (simp add: tiedProps_def ageColumn_def getField_def example_rows)
  have col': "find (\<lambda>col. Column.key col = ''age'') (columns absentProps) = Some ageColumn"
    by (simp add: absentProps_def mockProps_def example_columns)
  have cons': "consistent_on (sortComparator codeUnitCompare mixedString (Some Asc) ageColumn)
                (set (data absentProps))"
    by (rule sortComparator_consistent_numbers)
       (simp add: absentProps_def ageColumn_def getField_def objectPrototype_def example_rows
          nullAge_def noAge_def)
  have mem: "nullAge \<in> set (data absentProps)"
    by (simp add: absentProps_def)
  have absent: "filter (equal_keys (sortComparator codeUnitCompare mixedString (Some Asc) ageColumn) nullAge)
                  (data absentProps) = [nullAge, noAge]"
    by (simp add: absentProps_def equal_keys_def sortComparator_def ageColumn_def getField_def
        objectPrototype_def example_rows nullAge_def noAge_def)
  show ?thesis
    using col cons [of Asc] cons [of Desc] col' cons' mem
      sortedData_stable [OF col cons [of Asc]]
      sortedData_stable [OF col cons [of Desc]]
      sortedData_stable [OF col' cons']
    by (simp only: tied absent simp_thms)
qed

text \<open>
  Claim C6 as stated fails on a column that mixes numbers and strings. Rows 1 and 4 both
  hold the age 3 and their keys compare equal; in the data row 1 comes first, in the view
  by age ascending row 4 does. (\<open>'2'\<close> is below 3 and 10 below \<open>'2'\<close> as strings, 3 below 10
  as a number: the sort takes the four rows for one descending run and reverses it.)
\<close>

theorem sortedData_mixed_column_counterexample:
  "data mixedProps
     = [aged 1 (VNumber (Fin 3)), aged 2 (VString ''2''),
        aged 3 (VNumber (Fin 10)), aged 4 (VNumber (Fin 3))]
   \<and> getField (aged 1 (VNumber (Fin 3))) (dataIndex ageColumn)
       = getField (aged 4 (VNumber (Fin 3))) (dataIndex ageColumn)
   \<and> sortComparator codeUnitCompare mixedString (Some Asc) ageColumn
        (aged 1 (VNumber (Fin 3))) (aged 4 (VNumber (Fin 3))) = Fin 0
   \<and> sortedData codeUnitCompare mixedString mixedProps
        \<lparr>SortState.key = Some ''age'', direction = Some Asc\<rparr>
     = [aged 4 (VNumber (Fin 3)), aged 3 (VNumber (Fin 10)),
        aged 2 (VString ''2''), aged 1 (VNumber (Fin 3))]"
  by (simp add: sortedData_def mixedProps_def mockProps_def example_columns aged_def
      run_array_sort sortComparator_def getField_def mixedString_def)

text \<open>
  Claim C8. Two absent values compare as equal, in every direction. An absent value
  against a present one compares as smaller under ascending and as greater under
  descending, in whichever order the two are passed; so of the two rows the absent one
  comes first ascending and last descending.
\<close>

theorem sortComparator_absent:
  "(isNullish (getField a (dataIndex c)) \<and> isNullish (getField b (dataIndex c)) \<longrightarrow>
      sortComparator localeCompare toStr dir c a b = Fin 0)
   \<and> (isNullish (getField a (dataIndex c)) \<and> \<not> isNullish (getField b (dataIndex c)) \<longrightarrow>
        sortComparator localeCompare toStr (Some Asc) c a b = Fin (- 1)
      \<and> sortComparator localeCompare toStr (Some Asc) c b a = Fin 1
      \<and> sortComparator localeCompare toStr (Some Desc) c a b = Fin 1
      \<and> sortComparator localeCompare toStr (Some Desc) c b a = Fin (- 1)
      \<and> array_sort (sortComparator localeCompare toStr (Some Asc) c) [b, a] = [a, b]
      \<and> array_sort (sortComparator localeCompare toStr (Some Asc) c) [a, b] = [a, b]
      \<and> array_sort (sortComparator localeCompare toStr (Some Desc) c) [a, b] = [b, a]
      \<and> array_sort (sortComparator localeCompare toStr (Some Desc) c) [b, a] = [b, a])"
  by (simp add: sortComparator_def Let_def array_sort_def binaryInsertionSort_def)

text \<open>A row without an age, a row whose age is \<open>null\<close>, and John.\<close>

theorem sortComparator_absent_witness:
  "isNullish (getField [(''id'', VNumber (Fin 5))] (dataIndex ageColumn))
   \<and> isNullish (getField [(''id'', VNumber (Fin 6)), (''age'', VNull)] (dataIndex ageColumn))
   \<and> \<not> isNullish (getField john (dataIndex ageColumn))
   \<and> sortComparator codeUnitCompare (\<lambda>v. []) (Some Asc) ageColumn
        [(''id'', VNumber (Fin 5))] [(''id'', VNumber (Fin 6)), (''age'', VNull)] = Fin 0
   \<and> sortComparator codeUnitCompare (\<lambda>v. []) (Some Asc) ageColumn
        [(''id'', VNumber (Fin 5))] john = Fin (- 1)
   \<and> sortComparator codeUnitCompare (\<lambda>v. []) (Some Desc) ageColumn
        [(''id'', VNumber (Fin 5))] john = Fin 1
   \<and> array_sort (sortComparator codeUnitCompare (\<lambda>v. []) (Some Asc) ageColumn)
        [john, [(''id'', VNumber (Fin 5))]] = [[(''id'', VNumber (Fin 5))], john]
   \<and> array_sort (sortComparator codeUnitCompare (\<lambda>v. []) (Some Desc) ageColumn)
        [[(''id'', VNumber (Fin 5))], john] = [john, [(''id'', VNumber (Fin 5))]]"
proof -
  have u: "isNullish (getField [(''id'', VNumber (Fin 5))] (dataIndex ageColumn))"
    by (simp add: getField_def objectPrototype_def ageColumn_def)
  have n: "isNullish (getField [(''id'', VNumber (Fin 6)), (''age'', VNull)] (dataIndex ageColumn))"
    by (simp add: getField_def ageColumn_def)
  have j: "\<not> isNullish (getField john (dataIndex ageColumn))"
    by (simp add: getField_def ageColumn_def example_rows)
  show ?thesis
    using u n j
      sortComparator_absent [of "[(''id'', VNumber (Fin 5))]" ageColumn
         "[(''id'', VNumber (Fin 6)), (''age'', VNull)]" codeUnitCompare "\<lambda>v. []" "Some Asc"]
      sortComparator_absent [of "[(''id'', VNumber (Fin 5))]" ageColumn john
         codeUnitCompare "\<lambda>v. []" "Some Asc"]
    by blast
qed


section \<open>Sorting and selecting do not touch each other\<close>

text \<open>
  Claim C9. \<open>handleSort\<close> leaves the selection set as it is; \<open>handleRowSelect\<close> and
  \<open>handleSelectAll\<close> leave the sort state as it is. This holds in every state.
\<close>

theorem sort_selection_frame:
  "selectedRows (handleSort c s) = selectedRows s
   \<and> sortState (fst (handleRowSelect p k r s)) = sortState s
   \<and> sortState (fst (handleSelectAll p s)) = sortState s"
  by (simp add: selectedRows_handleSort sortState_handleRowSelect sortState_handleSelectAll)

text \<open>Sorting by age with John selected; selecting with the table sorted by age.\<close>

theorem sort_selection_frame_witness:
  "selectedRows (handleSort ageColumn
       (fst (handleRowSelect mockProps (VNumber (Fin 1)) john initialState))) = {|VNumber (Fin 1)|}
   \<and> sortState (fst (handleRowSelect mockProps (VNumber (Fin 1)) john
        (handleSort ageColumn initialState)))
       = \<lparr>SortState.key = Some ''age'', direction = Some Asc\<rparr>
   \<and> sortState (fst (handleSelectAll mockProps (handleSort ageColumn initialState)))
       = \<lparr>SortState.key = Some ''age'', direction = Some Asc\<rparr>"
proof -
  have sel: "selectedRows (fst (handleRowSelect mockProps (VNumber (Fin 1)) john initialState))
      = {|VNumber (Fin 1)|}"
    by (simp add: selectedRows_handleRowSelect initialState_def)
  have srt: "sortState (handleSort ageColumn initialState)
      = \<lparr>SortState.key = Some ''age'', direction = Some Asc\<rparr>"
    by (simp add: sortState_handleSort ageColumn_def initialState_def)
  show ?thesis
    using sort_selection_frame [of ageColumn
        "fst (handleRowSelect mockProps (VNumber (Fin 1)) john initialState)"
        mockProps "VNumber (Fin 1)" john]
      sort_selection_frame [of ageColumn "handleSort ageColumn initialState"
        mockProps "VNumber (Fin 1)" john]
    by (simp add: sel srt)
qed

end
